theory Spec2Isabelle
  imports Main "HOL-Library.Word"
begin

unbundle bit_operations_syntax

section \<open>Strings, bytes and the standard-library calls the programs make\<close>

text \<open>
  The repository holds three variants of one program: \<^verbatim>\<open>src/myrepo/tinygit.cpp\<close>
  (a hand-written SHA-1 and zlib's streaming interface), the first program of
  \<^verbatim>\<open>src/unnamed/part_000\<close> (lines 1 to 119: OpenSSL's SHA1 and zlib's one-shot
  \<^verbatim>\<open>compress\<close>/\<^verbatim>\<open>uncompress\<close>) and the combined program (\<^verbatim>\<open>part_000\<close> lines 121 to 304,
  repeated in \<^verbatim>\<open>part_001\<close>). Functions of \<^verbatim>\<open>tinygit.cpp\<close> keep their names; those of the
  first program of \<^verbatim>\<open>part_000\<close> carry the suffix \<open>_p0\<close>, those of the combined program
  the suffix \<open>_combined\<close>.

  A \<^verbatim>\<open>std::string\<close> is a \<^typ>\<open>string\<close>: a list of 8-bit characters, so that
  \<^const>\<open>length\<close> counts bytes as \<^verbatim>\<open>size()\<close> does. Sizes are natural numbers: a
  \<^verbatim>\<open>std::string\<close> cannot hold \<open>2 ^ 63\<close> bytes, so no \<^verbatim>\<open>size_t\<close> computed from a
  size wraps, except where the source relies on the wrap (\<^verbatim>\<open>npos + 1\<close> and the bit
  length of SHA-1), which is written out with words, and where a size is assigned to
  the 32-bit field \<^verbatim>\<open>avail_in\<close> of a zlib stream, which is written out with \<open>mod\<close>.
\<close>

type_synonym u8 = "8 word"
type_synonym u32 = "32 word"
type_synonym u64 = "64 word"

text \<open>The exceptions these programs can raise: \<^verbatim>\<open>std::out_of_range\<close>, thrown by
  \<^verbatim>\<open>std::string::substr\<close>; \<^verbatim>\<open>std::ios_base::failure\<close>, thrown when a stream buffer is
  read through \<^verbatim>\<open>std::istreambuf_iterator\<close> and the read fails, as it does on a
  directory; and \<^verbatim>\<open>fs::filesystem_error\<close>, thrown by \<^verbatim>\<open>fs::create_directories\<close>.
  Nothing catches them, so each ends the process.\<close>

datatype error = OutOfRange | IosFailure | FilesystemError

text \<open>\<^verbatim>\<open>s.substr(pos)\<close> and \<^verbatim>\<open>s.substr(pos, n)\<close>: they throw when \<^verbatim>\<open>pos > s.size()\<close>.\<close>

definition substr :: "string \<Rightarrow> nat \<Rightarrow> error + string" where
  "substr s pos = (if pos > length s then Inl OutOfRange else Inr (drop pos s))"

definition substr_n :: "string \<Rightarrow> nat \<Rightarrow> nat \<Rightarrow> error + string" where
  "substr_n s pos n = (if pos > length s then Inl OutOfRange else Inr (take n (drop pos s)))"

text \<open>The digits of \<^verbatim>\<open>std::to_string\<close> and of a stream in \<^verbatim>\<open>std::hex\<close> mode.\<close>

definition digit_char :: "nat \<Rightarrow> char" where
  "digit_char n = ''0123456789abcdef'' ! n"

function to_string :: "nat \<Rightarrow> string" where
  "to_string n = (if n < 10 then [digit_char n] else to_string (n div 10) @ [digit_char (n mod 10)])"
  by pat_completeness auto
termination
  by (relation "measure id") auto

declare to_string.simps [simp del]

function hex_digits :: "nat \<Rightarrow> string" where
  "hex_digits n = (if n < 16 then [digit_char n] else hex_digits (n div 16) @ [digit_char (n mod 16)])"
  by pat_completeness auto
termination
  by (relation "measure id") auto

declare hex_digits.simps [simp del]

text \<open>\<^verbatim>\<open>std::setw(w)\<close> with \<^verbatim>\<open>std::setfill(c)\<close> and the default right adjustment: the
  text is padded on the left up to the width and never cut.\<close>

definition setw :: "nat \<Rightarrow> char \<Rightarrow> string \<Rightarrow> string" where
  "setw w c s = replicate (w - length s) c @ s"

section \<open>The hand-written SHA-1 of \<^verbatim>\<open>tinygit.cpp\<close>\<close>

type_synonym hash_state = "u32 \<times> u32 \<times> u32 \<times> u32 \<times> u32"

text \<open>\<^verbatim>\<open>while ((padded.size() * 8) % 512 != 448) padded.push_back(0x00);\<close>
  (\<open>512\<close> divides \<open>2 ^ 64\<close>, so the wrap of the product would not change the test).\<close>

definition pad_distance :: "nat \<Rightarrow> nat" where
  "pad_distance n = (if n mod 64 \<le> 56 then 56 - n mod 64 else 120 - n mod 64)"

function append_zeros :: "u8 list \<Rightarrow> u8 list" where
  "append_zeros padded =
     (if (length padded * 8) mod 512 \<noteq> 448 then append_zeros (padded @ [0x00]) else padded)"
  by pat_completeness auto
termination
proof (relation "measure (\<lambda>padded. pad_distance (length padded))")
  show "wf (measure (\<lambda>padded. pad_distance (length padded)))"
    by simp
next
  fix padded :: "u8 list"
  assume a: "(length padded * 8) mod 512 \<noteq> 448"
  let ?n = "length padded"
  have "8 * (?n mod 64) = (8 * ?n) mod (8 * 64)"
    by (rule mult_mod_right)
  then have "(?n * 8) mod 512 = 8 * (?n mod 64)"
    by (simp add: mult.commute)
  with a have b: "?n mod 64 \<noteq> 56"
    by auto
  have d: "Suc ?n mod 64 = (if ?n mod 64 = 63 then 0 else Suc (?n mod 64))"
    by (simp add: mod_Suc)
  have "pad_distance (Suc ?n) < pad_distance ?n"
    using b unfolding pad_distance_def d by (auto split: if_splits)
  then show "(padded @ [0x00], padded) \<in> measure (\<lambda>padded. pad_distance (length padded))"
    by simp
qed

declare append_zeros.simps [simp del]

text \<open>\<^verbatim>\<open>for (int i = 7; i >= 0; i--) padded.push_back((bit_len >> (i * 8)) & 0xFF);\<close>\<close>

definition append_length :: "u64 \<Rightarrow> u8 list \<Rightarrow> u8 list" where
  "append_length bit_len padded =
     fold (\<lambda>i p. p @ [ucast (drop_bit (i * 8) bit_len AND 0xFF)]) [7, 6, 5, 4, 3, 2, 1, 0] padded"

definition sha1_padding :: "string \<Rightarrow> u8 list" where
  "sha1_padding data =
     (let padded = map of_char data;
          orig_len = length padded;
          padded = padded @ [0x80];
          padded = append_zeros padded;
          bit_len = (of_nat orig_len * 8 :: u64)
      in append_length bit_len padded)"

text \<open>The array \<^verbatim>\<open>uint32_t w[80]\<close> is a list of 80 words; the source leaves it
  uninitialised and writes every entry before reading it, the model starts it at zero.\<close>

definition load_block :: "u8 list \<Rightarrow> nat \<Rightarrow> u32 list \<Rightarrow> u32 list" where
  "load_block padded offset w =
     fold (\<lambda>i w.
        fold (\<lambda>j w. w[i := (w ! i) OR push_bit (24 - j * 8) (ucast (padded ! (offset + i * 4 + j)))])
          [0..<4] (w[i := 0]))
       [0..<16] w"

definition extend_words :: "u32 list \<Rightarrow> u32 list" where
  "extend_words w =
     fold (\<lambda>i w.
        let w = w[i := (w ! (i - 3)) XOR (w ! (i - 8)) XOR (w ! (i - 14)) XOR (w ! (i - 16))]
        in w[i := push_bit 1 (w ! i) OR drop_bit 31 (w ! i)])
       [16..<80] w"

definition sha1_round :: "u32 list \<Rightarrow> nat \<Rightarrow> hash_state \<Rightarrow> hash_state" where
  "sha1_round w i = (\<lambda>(a, b, c, d, e).
     let (f, k) =
           (if i < 20 then ((b AND c) OR ((NOT b) AND d), 0x5A827999)
            else if i < 40 then (b XOR c XOR d, 0x6ED9EBA1)
            else if i < 60 then ((b AND c) OR (b AND d) OR (c AND d), 0x8F1BBCDC)
            else (b XOR c XOR d, 0xCA62C1D6));
         temp = (push_bit 5 a OR drop_bit 27 a) + f + e + k + w ! i
     in (temp, a, push_bit 30 b OR drop_bit 2 b, c, d))"

definition process_block :: "u8 list \<Rightarrow> nat \<Rightarrow> hash_state \<Rightarrow> hash_state" where
  "process_block padded offset = (\<lambda>(h0, h1, h2, h3, h4).
     let w = extend_words (load_block padded offset (replicate 80 0));
         (a, b, c, d, e) = fold (sha1_round w) [0..<80] (h0, h1, h2, h3, h4)
     in (h0 + a, h1 + b, h2 + c, h3 + d, h4 + e))"

text \<open>\<^verbatim>\<open>for (size_t offset = 0; offset < padded.size(); offset += 64)\<close>\<close>

function process_blocks :: "u8 list \<Rightarrow> nat \<Rightarrow> hash_state \<Rightarrow> hash_state" where
  "process_blocks padded offset h =
     (if offset < length padded
      then process_blocks padded (offset + 64) (process_block padded offset h)
      else h)"
  by pat_completeness auto
termination
  by (relation "measure (\<lambda>(padded, offset, h). length padded - offset)") auto

declare process_blocks.simps [simp del]

definition hex8 :: "u32 \<Rightarrow> string" where
  "hex8 h = setw 8 (CHR ''0'') (hex_digits (unat h))"

definition sha1 :: "string \<Rightarrow> string" where
  "sha1 data =
     (case process_blocks (sha1_padding data) 0
             (0x67452301, 0xEFCDAB89, 0x98BADCFE, 0x10325476, 0xC3D2E1F0) of
        (h0, h1, h2, h3, h4) \<Rightarrow> hex8 h0 @ hex8 h1 @ hex8 h2 @ hex8 h3 @ hex8 h4)"

section \<open>OpenSSL's SHA1 and the \<^verbatim>\<open>sha1\<close> of \<^verbatim>\<open>part_000\<close>\<close>

text \<open>
  The programs of \<^verbatim>\<open>part_000\<close> call \<^verbatim>\<open>SHA1\<close> of OpenSSL, a library outside the
  repository. It is modelled by the function the library implements, the Secure Hash
  Algorithm SHA-1 as FIPS 180-4 defines it (sections 2.2.2, 4.1.1, 4.2.1, 5.1.1, 5.2.1
  and 6.1.2), written after the standard and not after \<^verbatim>\<open>tinygit.cpp\<close>: the padding
  by its closed form, the message schedule \<open>W\<close> as a recursive function of \<open>t\<close>, the
  functions \<open>Ch\<close>, \<open>Parity\<close> and \<open>Maj\<close> with exclusive or, the rotation \<open>ROTL\<close>.
  The bit length is taken modulo \<open>2 ^ 64\<close>, as the library's 64-bit counter does; the
  standard itself stops at messages of \<open>2 ^ 64\<close> bits.
\<close>

definition ROTL :: "nat \<Rightarrow> u32 \<Rightarrow> u32" where
  "ROTL n x = word_rotl n x"

definition Ch :: "u32 \<Rightarrow> u32 \<Rightarrow> u32 \<Rightarrow> u32" where
  "Ch x y z = (x AND y) XOR ((NOT x) AND z)"

definition Parity :: "u32 \<Rightarrow> u32 \<Rightarrow> u32 \<Rightarrow> u32" where
  "Parity x y z = x XOR y XOR z"

definition Maj :: "u32 \<Rightarrow> u32 \<Rightarrow> u32 \<Rightarrow> u32" where
  "Maj x y z = (x AND y) XOR (x AND z) XOR (y AND z)"

definition f_t :: "nat \<Rightarrow> u32 \<Rightarrow> u32 \<Rightarrow> u32 \<Rightarrow> u32" where
  "f_t t = (if t \<le> 19 then Ch else if t \<le> 39 then Parity else if t \<le> 59 then Maj else Parity)"

definition K_t :: "nat \<Rightarrow> u32" where
  "K_t t = (if t \<le> 19 then 0x5a827999 else if t \<le> 39 then 0x6ed9eba1
            else if t \<le> 59 then 0x8f1bbcdc else 0xca62c1d6)"

definition be64 :: "u64 \<Rightarrow> u8 list" where
  "be64 l = map (\<lambda>i. ucast (drop_bit (8 * (7 - i)) l)) [0..<8]"

definition fips_pad :: "u8 list \<Rightarrow> u8 list" where
  "fips_pad M = M @ [0x80] @ replicate ((119 - length M mod 64) mod 64) 0
                  @ be64 (of_nat (8 * length M))"

definition blocks :: "u8 list \<Rightarrow> u8 list list" where
  "blocks xs = map (\<lambda>i. take 64 (drop (64 * i) xs)) [0..<length xs div 64]"

definition block_words :: "u8 list \<Rightarrow> u32 list" where
  "block_words blk = map (\<lambda>t. word_rcat (take 4 (drop (4 * t) blk))) [0..<16]"

function W :: "u32 list \<Rightarrow> nat \<Rightarrow> u32" where
  "W M t = (if t < 16 then M ! t
            else ROTL 1 (W M (t - 3) XOR W M (t - 8) XOR W M (t - 14) XOR W M (t - 16)))"
  by pat_completeness auto
termination
  by (relation "measure snd") auto

declare W.simps [simp del]

definition fips_step :: "u32 list \<Rightarrow> nat \<Rightarrow> hash_state \<Rightarrow> hash_state" where
  "fips_step M t = (\<lambda>(a, b, c, d, e).
     (ROTL 5 a + f_t t b c d + e + K_t t + W M t, a, ROTL 30 b, c, d))"

fun fips_rounds :: "u32 list \<Rightarrow> nat \<Rightarrow> hash_state \<Rightarrow> hash_state" where
  "fips_rounds M 0 s = s"
| "fips_rounds M (Suc t) s = fips_step M t (fips_rounds M t s)"

definition fips_block :: "u8 list \<Rightarrow> hash_state \<Rightarrow> hash_state" where
  "fips_block blk = (\<lambda>(H0, H1, H2, H3, H4).
     case fips_rounds (block_words blk) 80 (H0, H1, H2, H3, H4) of
       (a, b, c, d, e) \<Rightarrow> (a + H0, b + H1, c + H2, d + H3, e + H4))"

definition be32 :: "u32 \<Rightarrow> u8 list" where
  "be32 h = map (\<lambda>i. ucast (drop_bit (8 * (3 - i)) h)) [0..<4]"

definition SHA1 :: "string \<Rightarrow> u8 list" where
  "SHA1 data =
     (case fold fips_block (blocks (fips_pad (map of_char data)))
             (0x67452301, 0xefcdab89, 0x98badcfe, 0x10325476, 0xc3d2e1f0) of
        (H0, H1, H2, H3, H4) \<Rightarrow> be32 H0 @ be32 H1 @ be32 H2 @ be32 H3 @ be32 H4)"

text \<open>\<^verbatim>\<open>for (i = 0; i < SHA_DIGEST_LENGTH; ++i)
    oss << std::hex << std::setw(2) << std::setfill('0') << (int)hash[i];\<close>
  The combined program sets \<^verbatim>\<open>std::hex\<close> and the fill character once, before the
  loop, and prints the same text.\<close>

definition hex2 :: "u8 \<Rightarrow> string" where
  "hex2 b = setw 2 (CHR ''0'') (hex_digits (unat b))"

definition sha1_p0 :: "string \<Rightarrow> string" where
  "sha1_p0 data = fold (\<lambda>i oss. oss @ hex2 (SHA1 data ! i)) [0..<20] []"

definition sha1_combined :: "string \<Rightarrow> string" where
  "sha1_combined data = fold (\<lambda>i oss. oss @ hex2 (SHA1 data ! i)) [0..<20] []"

section \<open>zlib\<close>

text \<open>
  zlib is a library outside the repository, and the compressed format does not matter
  to the programs: a codec is given by the zlib stream \<open>deflate_all\<close> that compression
  at the default level produces for an input, and by \<open>inflate_all\<close>, the bytes that
  decompression produces from an input until it stops together with the reason it stops
  for (the end of a complete stream, invalid data, or the end of the input before the
  end of the stream). The calls below follow the contracts of \<^verbatim>\<open>zlib.h\<close>.
  Running out of memory (\<open>Z_MEM_ERROR\<close>) is not modelled.
\<close>

datatype zret = Z_OK | Z_STREAM_END | Z_BUF_ERROR | Z_DATA_ERROR

datatype zstop = Stream_End | Data_Error | Input_End

record codec =
  deflate_all :: "string \<Rightarrow> string"
  inflate_all :: "string \<Rightarrow> string \<times> zstop"

text \<open>The code \<^verbatim>\<open>inflate\<close> returns when it stops: without input left and with the
  stream unfinished it can make no progress, which is \<open>Z_BUF_ERROR\<close>.\<close>

fun stop_code :: "zstop \<Rightarrow> zret" where
  "stop_code Stream_End = Z_STREAM_END"
| "stop_code Data_Error = Z_DATA_ERROR"
| "stop_code Input_End = Z_BUF_ERROR"

text \<open>\<^verbatim>\<open>compressBound(sourceLen)\<close>, as zlib computes it:
  \<^verbatim>\<open>sourceLen + (sourceLen >> 12) + (sourceLen >> 14) + (sourceLen >> 25) + 13\<close>.\<close>

definition compressBound :: "nat \<Rightarrow> nat" where
  "compressBound sourceLen =
     sourceLen + drop_bit 12 sourceLen + drop_bit 14 sourceLen + drop_bit 25 sourceLen + 13"

text \<open>What the programs rely on: decompression inverts compression, no input gives no
  output and an unfinished stream, and \<^verbatim>\<open>compressBound\<close> is an upper bound of the
  compressed size.\<close>

definition codec_ok :: "codec \<Rightarrow> bool" where
  "codec_ok z \<longleftrightarrow>
     (\<forall>x. inflate_all z (deflate_all z x) = (x, Stream_End)) \<and>
     inflate_all z [] = ([], Input_End) \<and>
     (\<forall>x. length (deflate_all z x) \<le> compressBound (length x))"

text \<open>A small codec that satisfies these laws, for evaluating the programs: a stream is
  the byte \<open>0x78\<close> followed by the input.\<close>

definition toy_codec :: codec where
  "toy_codec = \<lparr> deflate_all = (\<lambda>x. CHR 0x78 # x),
                 inflate_all = (\<lambda>y. case y of [] \<Rightarrow> ([], Input_End)
                                   | c # x \<Rightarrow> if c = CHR 0x78 then (x, Stream_End)
                                              else ([], Data_Error)) \<rparr>"

text \<open>A second one, which abbreviates one chosen input \<open>long\<close> to the single byte
  \<open>0x79\<close>: on that input it compresses as strongly as the input is long.\<close>

definition short_codec :: "string \<Rightarrow> codec" where
  "short_codec long =
     \<lparr> deflate_all = (\<lambda>x. if x = long then [CHR 0x79] else CHR 0x78 # x),
       inflate_all = (\<lambda>y. case y of [] \<Rightarrow> ([], Input_End)
                         | c # x \<Rightarrow> if c = CHR 0x78 then (x, Stream_End)
                                    else if c = CHR 0x79 \<and> x = [] then (long, Stream_End)
                                    else ([], Data_Error)) \<rparr>"

text \<open>\<^verbatim>\<open>deflate(&zs, Z_FINISH)\<close> on a stream whose whole input was given at once: the
  state is the output still to deliver; a call delivers what fits in \<^verbatim>\<open>avail_out\<close> and
  returns \<open>Z_STREAM_END\<close> once everything is delivered, \<open>Z_OK\<close> before. The result is
  the code, the bytes written to the buffer and the new state.\<close>

definition deflate :: "string \<Rightarrow> nat \<Rightarrow> zret \<times> string \<times> string" where
  "deflate pending avail_out =
     (if length pending \<le> avail_out then Z_STREAM_END else Z_OK,
      take avail_out pending, drop avail_out pending)"

text \<open>\<^verbatim>\<open>do { zs.avail_out = buffer.size(); ret = deflate(&zs, Z_FINISH);
       compressed.insert(compressed.end(), buffer.begin(), buffer.end() - zs.avail_out);
  } while (ret == Z_OK);\<close> with a buffer of 1024 bytes.\<close>

function deflate_loop :: "string \<Rightarrow> string \<Rightarrow> string" where
  "deflate_loop zs compressed =
     (case deflate zs 1024 of
        (ret, written, zs') \<Rightarrow>
          if ret = Z_OK then deflate_loop zs' (compressed @ written) else compressed @ written)"
  by pat_completeness auto
termination
  by (relation "measure (\<lambda>(zs, compressed). length zs)") (auto simp: deflate_def split: if_splits)

declare deflate_loop.simps [simp del]

text \<open>\<^verbatim>\<open>inflate(&zs, Z_NO_FLUSH)\<close>, likewise: the state is the output still to deliver
  and the reason the stream stops for.\<close>

definition inflate :: "string \<times> zstop \<Rightarrow> nat \<Rightarrow> zret \<times> string \<times> (string \<times> zstop)" where
  "inflate zs avail_out =
     (case zs of (pending, fin) \<Rightarrow>
        if length pending > avail_out
        then (Z_OK, take avail_out pending, (drop avail_out pending, fin))
        else (stop_code fin, pending, ([], fin)))"

text \<open>\<^verbatim>\<open>do { zs.avail_out = buffer.size(); ret = inflate(&zs, Z_NO_FLUSH);
       result.append((char*)buffer.data(), buffer.size() - zs.avail_out);
  } while (ret == Z_OK);\<close>\<close>

function inflate_loop :: "string \<times> zstop \<Rightarrow> string \<Rightarrow> string" where
  "inflate_loop zs result =
     (case inflate zs 1024 of
        (ret, written, zs') \<Rightarrow>
          if ret = Z_OK then inflate_loop zs' (result @ written) else result @ written)"
  by pat_completeness auto
termination
proof (relation "measure (\<lambda>(zs, result). length (fst zs))")
  show "wf (measure (\<lambda>(zs, result). length (fst zs)))"
    by simp
next
  fix zs :: "string \<times> zstop" and result y :: string and x xa ya
  assume a: "(x, xa) = inflate zs 1024" "(y, ya) = xa" "x = Z_OK"
  obtain pending fin where zs: "zs = (pending, fin)"
    by (cases zs)
  have "stop_code fin \<noteq> Z_OK"
    by (cases fin) simp_all
  with a zs have "length pending > 1024 \<and> ya = (drop 1024 pending, fin)"
    by (auto simp: inflate_def split: if_splits)
  then show "((ya, result @ y), zs, result) \<in> measure (\<lambda>(zs, result). length (fst zs))"
    using zs by auto
qed

declare inflate_loop.simps [simp del]

text \<open>\<^verbatim>\<open>compress(dest, &destLen, source, sourceLen)\<close> and
  \<^verbatim>\<open>uncompress(dest, &destLen, source, sourceLen)\<close>: the result is the code, the new
  \<^verbatim>\<open>destLen\<close> and the bytes written to \<^verbatim>\<open>dest\<close>. When the buffer is too small they
  fill it and return \<open>Z_BUF_ERROR\<close>.\<close>

definition compress :: "codec \<Rightarrow> nat \<Rightarrow> string \<Rightarrow> zret \<times> nat \<times> string" where
  "compress z destLen source =
     (let out = deflate_all z source
      in if length out \<le> destLen then (Z_OK, length out, out)
         else (Z_BUF_ERROR, destLen, take destLen out))"

definition uncompress :: "codec \<Rightarrow> nat \<Rightarrow> string \<Rightarrow> zret \<times> nat \<times> string" where
  "uncompress z destLen source =
     (case inflate_all z source of
        (out, fin) \<Rightarrow>
          if length out > destLen then (Z_BUF_ERROR, destLen, take destLen out)
          else if fin = Stream_End then (Z_OK, length out, out)
          else (Z_DATA_ERROR, length out, out))"

text \<open>\<^verbatim>\<open>while ((ret = uncompress(decompressed.data(), &decompressed_size, ...)) == Z_BUF_ERROR) {
      decompressed_size *= 2; decompressed.resize(decompressed_size); }\<close>
  A size of zero stays zero when doubled, and the loop then repeats the same call for
  ever: the result \<open>None\<close>.\<close>

function uncompress_retry :: "codec \<Rightarrow> string \<Rightarrow> nat \<Rightarrow> (zret \<times> nat \<times> string) option" where
  "uncompress_retry z compressed decompressed_size =
     (case uncompress z decompressed_size compressed of
        (ret, n, buf) \<Rightarrow>
          if ret = Z_BUF_ERROR
          then (if n * 2 = n then None else uncompress_retry z compressed (n * 2))
          else Some (ret, n, buf))"
  by pat_completeness auto
termination
  by (relation "measure (\<lambda>(z, compressed, n). length (fst (inflate_all z compressed)) - n)")
    (simp_all add: uncompress_def split: if_splits prod.splits)

declare uncompress_retry.simps [simp del]


section \<open>The file system\<close>

text \<open>
  The file system is the tree below the current directory: a map from a position, the
  list of the names that lead to it, to a regular file with its bytes or to a
  directory. The current directory, the position \<open>[]\<close>, is a directory. A path is
  resolved name by name through directories, with \<^verbatim>\<open>.\<close>, \<^verbatim>\<open>..\<close> and empty names
  (doubled and trailing slashes) as POSIX resolves them. What lies above the current
  directory is outside the tree (\<^verbatim>\<open>..\<close> at the top stays there, an absolute path starts
  there); symbolic links, permissions and a full disk are not modelled.
\<close>

datatype node = File string | Dir

type_synonym filesystem = "string list \<rightharpoonup> node"

definition is_dir :: "filesystem \<Rightarrow> string list \<Rightarrow> bool" where
  "is_dir fs pos \<longleftrightarrow> pos = [] \<or> fs pos = Some Dir"

text \<open>The names of a path: the pieces between its slashes.\<close>

fun split_path :: "string \<Rightarrow> string list" where
  "split_path [] = [[]]"
| "split_path (c # cs) =
     (if c = CHR ''/'' then [] # split_path cs
      else (case split_path cs of [] \<Rightarrow> [[c]] | name # names \<Rightarrow> (c # name) # names))"

fun walk :: "filesystem \<Rightarrow> string list \<Rightarrow> string list \<Rightarrow> string list option" where
  "walk fs pos [] = Some pos"
| "walk fs pos (name # names) =
     (if \<not> is_dir fs pos then None
      else if name = [] \<or> name = ''.'' then walk fs pos names
      else if name = ''..'' then walk fs (butlast pos) names
      else walk fs (pos @ [name]) names)"

text \<open>The position a path names, if every name before the last leads through a
  directory; the empty path names nothing.\<close>

definition locate :: "filesystem \<Rightarrow> string \<Rightarrow> string list option" where
  "locate fs path = (if path = [] then None else walk fs [] (split_path path))"

datatype status = Absent | Regular string | Directory

definition file_status :: "filesystem \<Rightarrow> string \<Rightarrow> status" where
  "file_status fs path =
     (case locate fs path of
        None \<Rightarrow> Absent
      | Some pos \<Rightarrow>
          if is_dir fs pos then Directory
          else (case fs pos of Some (File bytes) \<Rightarrow> Regular bytes | _ \<Rightarrow> Absent))"

text \<open>\<^verbatim>\<open>std::ifstream in(path, std::ios::binary)\<close> followed by the construction of a
  container from \<^verbatim>\<open>std::istreambuf_iterator<char>(in)\<close>: all the bytes of a regular
  file, and no byte of a stream that failed to open. A directory opens, and reading it
  throws \<^verbatim>\<open>std::ios_base::failure\<close> through the iterator.\<close>

definition read_bytes :: "filesystem \<Rightarrow> string \<Rightarrow> error + string" where
  "read_bytes fs path =
     (case file_status fs path of
        Absent \<Rightarrow> Inr []
      | Regular bytes \<Rightarrow> Inr bytes
      | Directory \<Rightarrow> Inl IosFailure)"

text \<open>\<^verbatim>\<open>std::ofstream(path)\<close> and the writing of bytes to it: the file is created or
  truncated when the path leads through directories to a position that is no
  directory; otherwise the stream fails to open and the bytes are dropped without a
  sign.\<close>

definition write_file :: "filesystem \<Rightarrow> string \<Rightarrow> string \<Rightarrow> filesystem" where
  "write_file fs path bytes =
     (case locate fs path of
        None \<Rightarrow> fs
      | Some pos \<Rightarrow> if is_dir fs pos then fs else fs(pos \<mapsto> File bytes))"

text \<open>\<^verbatim>\<open>fs::create_directories(path)\<close>: makes every directory of the path that is
  missing; it throws \<^verbatim>\<open>fs::filesystem_error\<close> when a name of the path is a regular
  file, and for the empty path.\<close>

fun make_dirs :: "filesystem \<Rightarrow> string list \<Rightarrow> string list \<Rightarrow> error + filesystem" where
  "make_dirs fs pos [] = Inr fs"
| "make_dirs fs pos (name # names) =
     (if name = [] \<or> name = ''.'' then make_dirs fs pos names
      else if name = ''..'' then make_dirs fs (butlast pos) names
      else (case fs (pos @ [name]) of
              Some (File bytes) \<Rightarrow> Inl FilesystemError
            | Some Dir \<Rightarrow> make_dirs fs (pos @ [name]) names
            | None \<Rightarrow> make_dirs (fs(pos @ [name] \<mapsto> Dir)) (pos @ [name]) names))"

definition create_directories :: "filesystem \<Rightarrow> string \<Rightarrow> error + filesystem" where
  "create_directories fs path =
     (if path = [] then Inl FilesystemError else make_dirs fs [] (split_path path))"

text \<open>\<^verbatim>\<open>fs::path(p).parent_path()\<close>: the path without its last name and the slashes
  before it.\<close>

definition parent_path :: "string \<Rightarrow> string" where
  "parent_path p =
     (if CHR ''/'' \<notin> set p then []
      else let d = rev (dropWhile (\<lambda>c. c = CHR ''/'') (dropWhile (\<lambda>c. c \<noteq> CHR ''/'') (rev p)))
           in if d = [] then ''/'' else d)"

section \<open>The object store\<close>

text \<open>\<^verbatim>\<open>std::string + const char*\<close> appends the characters of the C string, which ends
  at its first NUL: for the literal \<^verbatim>\<open>"\0"\<close> that is no character at all.\<close>

definition c_str :: "string \<Rightarrow> string" where
  "c_str lit = takeWhile (\<lambda>c. c \<noteq> CHR 0x00) lit"

text \<open>\<^verbatim>\<open>s.find(c)\<close>: the index of the first occurrence as a \<^verbatim>\<open>size_t\<close>, or
  \<^verbatim>\<open>std::string::npos\<close>, the largest \<^verbatim>\<open>size_t\<close>.\<close>

definition npos :: u64 where
  "npos = - 1"

definition find_char :: "string \<Rightarrow> char \<Rightarrow> u64" where
  "find_char s c = (if c \<in> set s then of_nat (length (takeWhile (\<lambda>x. x \<noteq> c) s)) else npos)"

subsection \<open>\<^verbatim>\<open>tinygit.cpp\<close>\<close>

definition store_encoding :: "string \<Rightarrow> string \<Rightarrow> string" where
  "store_encoding data type =
     (let header = type @ c_str '' '' @ to_string (length data) @ c_str [CHR 0x00]
      in header @ data)"

text \<open>\<^verbatim>\<open>std::string dir = ".tinygit/objects/" + sha.substr(0, 2);
  std::string file = dir + "/" + sha.substr(2);\<close> The result is the directory and the
  file.\<close>

definition write_path :: "string \<Rightarrow> error + (string \<times> string)" where
  "write_path sha =
     (case substr_n sha 0 2 of Inl e \<Rightarrow> Inl e | Inr s02 \<Rightarrow>
      let dir = ''.tinygit/objects/'' @ s02
      in case substr sha 2 of Inl e \<Rightarrow> Inl e | Inr s2 \<Rightarrow>
         let file = dir @ ''/'' @ s2
         in Inr (dir, file))"

text \<open>The field \<^verbatim>\<open>zs.avail_in\<close> of a \<^verbatim>\<open>z_stream\<close> has 32 bits: the assignment
  \<^verbatim>\<open>zs.avail_in = store.size()\<close> keeps the size modulo \<open>2 ^ 32\<close>, and the stream reads
  that many bytes.\<close>

definition write_object :: "codec \<Rightarrow> filesystem \<Rightarrow> string \<Rightarrow> string \<Rightarrow> error + (string \<times> filesystem)" where
  "write_object z fs data type =
     (let store = store_encoding data type;
          sha = sha1 store
      in case write_path sha of Inl e \<Rightarrow> Inl e | Inr (dir, file) \<Rightarrow>
         case create_directories fs dir of Inl e \<Rightarrow> Inl e | Inr fs1 \<Rightarrow>
         let avail_in = length store mod 2 ^ 32;
             compressed = deflate_loop (deflate_all z (take avail_in store)) []
         in Inr (sha, write_file fs1 file compressed))"

text \<open>\<^verbatim>\<open>std::string file = ".tinygit/objects/" + sha.substr(0, 2) + "/" + sha.substr(2);\<close>
  The two later programs build the path of both functions by this expression.\<close>

definition read_path :: "string \<Rightarrow> error + string" where
  "read_path sha =
     (case substr_n sha 0 2 of Inl e \<Rightarrow> Inl e | Inr s02 \<Rightarrow>
      case substr sha 2 of Inl e \<Rightarrow> Inl e | Inr s2 \<Rightarrow>
        Inr (''.tinygit/objects/'' @ s02 @ ''/'' @ s2))"

definition read_object :: "codec \<Rightarrow> filesystem \<Rightarrow> string \<Rightarrow> error + string" where
  "read_object z fs sha =
     (case read_path sha of Inl e \<Rightarrow> Inl e | Inr file \<Rightarrow>
      case read_bytes fs file of Inl e \<Rightarrow> Inl e | Inr compressed \<Rightarrow>
        let avail_in = length compressed mod 2 ^ 32;
            result = inflate_loop (inflate_all z (take avail_in compressed)) [];
            null_pos = find_char result (CHR 0x00)
        in substr result (unat (null_pos + 1)))"

subsection \<open>The first program of \<^verbatim>\<open>part_000\<close>\<close>

definition store_encoding_p0 :: "string \<Rightarrow> string \<Rightarrow> string" where
  "store_encoding_p0 data type = type @ c_str '' '' @ to_string (length data) @ [CHR 0x00] @ data"

definition write_object_p0 :: "codec \<Rightarrow> filesystem \<Rightarrow> string \<Rightarrow> string \<Rightarrow> error + (string \<times> filesystem)" where
  "write_object_p0 z fs data type =
     (let store = store_encoding_p0 data type;
          sha = sha1_p0 store;
          bound = compressBound (length store)
      in case compress z bound store of (ret, len, compressed) \<Rightarrow>
         case read_path sha of Inl e \<Rightarrow> Inl e | Inr file \<Rightarrow>
         case create_directories fs (parent_path file) of Inl e \<Rightarrow> Inl e | Inr fs1 \<Rightarrow>
           Inr (sha, write_file fs1 file (take len compressed)))"

text \<open>\<^verbatim>\<open>if (!in) return "";\<close> leaves when the stream failed to open. In the result,
  \<open>None\<close> stands for a call that never returns.\<close>

definition read_object_p0 :: "codec \<Rightarrow> filesystem \<Rightarrow> string \<Rightarrow> (error + string) option" where
  "read_object_p0 z fs sha =
     (case read_path sha of Inl e \<Rightarrow> Some (Inl e) | Inr file \<Rightarrow>
        if file_status fs file = Absent then Some (Inr [])
        else
        case read_bytes fs file of Inl e \<Rightarrow> Some (Inl e) | Inr compressed \<Rightarrow>
              (case uncompress_retry z compressed (1024 * 1024) of None \<Rightarrow> None
               | Some (ret, decompressed_size, decompressed) \<Rightarrow>
                  if ret \<noteq> Z_OK then Some (Inr [])
                  else let store = take decompressed_size decompressed;
                           null_pos = find_char store (CHR 0x00)
                       in if null_pos = npos then Some (Inr [])
                          else Some (substr store (unat (null_pos + 1)))))"

subsection \<open>The combined program\<close>

text \<open>When compression fails the combined program writes nothing and returns the empty
  string. \<^verbatim>\<open>if (!fs::exists(file)) return "";\<close> leaves when the path names nothing.\<close>

definition write_object_combined :: "codec \<Rightarrow> filesystem \<Rightarrow> string \<Rightarrow> string \<Rightarrow> error + (string \<times> filesystem)" where
  "write_object_combined z fs data type =
     (let store = type @ c_str '' '' @ to_string (length data) @ [CHR 0x00] @ data;
          sha = sha1_combined store;
          bound = compressBound (length store)
      in case compress z bound store of (ret, compressed_len, compressed) \<Rightarrow>
         if ret \<noteq> Z_OK then Inr ([], fs)
         else case read_path sha of Inl e \<Rightarrow> Inl e | Inr file \<Rightarrow>
         case create_directories fs (parent_path file) of Inl e \<Rightarrow> Inl e | Inr fs1 \<Rightarrow>
           Inr (sha, write_file fs1 file (take compressed_len compressed)))"

definition read_object_combined :: "codec \<Rightarrow> filesystem \<Rightarrow> string \<Rightarrow> (error + string) option" where
  "read_object_combined z fs sha =
     (case read_path sha of Inl e \<Rightarrow> Some (Inl e) | Inr file \<Rightarrow>
        if file_status fs file = Absent then Some (Inr [])
        else
        case read_bytes fs file of Inl e \<Rightarrow> Some (Inl e) | Inr compressed \<Rightarrow>
              (let compressed_size = length compressed
               in case uncompress_retry z compressed (compressed_size * 5) of None \<Rightarrow> None
               | Some (ret, decompressed_size, decompressed) \<Rightarrow>
                  if ret \<noteq> Z_OK then Some (Inr [])
                  else let store = take decompressed_size decompressed;
                           null_pos = find_char store (CHR 0x00)
                       in if null_pos = npos then Some (Inr [])
                          else Some (substr store (unat (null_pos + 1)))))"

section \<open>The commands\<close>

text \<open>
  A run of \<^verbatim>\<open>main\<close> takes the argument vector (the program name first), the file
  system and the values that the calls of \<^verbatim>\<open>std::time(nullptr)\<close> return, the first
  and the second (a \<^verbatim>\<open>time_t\<close> is a signed 64-bit number); it ends with an uncaught
  exception or returns an exit code, having written to the two output streams and to
  the file system.
\<close>

record outcome =
  exit_code :: int
  out :: string
  err :: string
  files :: filesystem

text \<open>\<^verbatim>\<open>stream >> word\<close>: skips white space, then takes the characters up to the next
  white space.\<close>

definition isspace :: "char \<Rightarrow> bool" where
  "isspace c \<longleftrightarrow> c \<in> set [CHR '' '', CHR 0x09, CHR 0x0A, CHR 0x0B, CHR 0x0C, CHR 0x0D]"

definition extract_word :: "string \<Rightarrow> string" where
  "extract_word content = takeWhile (\<lambda>c. \<not> isspace c) (dropWhile isspace content)"

text \<open>A \<^verbatim>\<open>time_t\<close> written to a stream: a signed decimal number.\<close>

definition show_long :: "int \<Rightarrow> string" where
  "show_long t = (if t < 0 then CHR ''-'' # to_string (nat (- t)) else to_string (nat t))"

text \<open>The reference store is the file of the branch. The commit command writes the
  identifier and a newline through \<^verbatim>\<open>std::ofstream(".tinygit/refs/heads/master")\<close>,
  which creates no directory. The log command opens the file and extracts its first
  word into an empty string: nothing is extracted from a stream that failed to open,
  and nothing from a directory, since the extraction operator catches the failure of
  the read and only marks the stream.\<close>

definition update_ref :: "filesystem \<Rightarrow> string \<Rightarrow> filesystem" where
  "update_ref fs sha = write_file fs ''.tinygit/refs/heads/master'' (sha @ ''\<newline>'')"

definition resolve_ref :: "filesystem \<Rightarrow> string" where
  "resolve_ref fs =
     (case file_status fs ''.tinygit/refs/heads/master'' of
        Regular content \<Rightarrow> extract_word content
      | _ \<Rightarrow> [])"

text \<open>The command \<^verbatim>\<open>init\<close>: two calls of \<^verbatim>\<open>fs::create_directories\<close>, then the file
  \<^verbatim>\<open>.tinygit/HEAD\<close>.\<close>

definition init_files :: "filesystem \<Rightarrow> error + filesystem" where
  "init_files fs =
     (case create_directories fs ''.tinygit/objects'' of Inl e \<Rightarrow> Inl e | Inr fs1 \<Rightarrow>
      case create_directories fs1 ''.tinygit/refs/heads'' of Inl e \<Rightarrow> Inl e | Inr fs2 \<Rightarrow>
        Inr (write_file fs2 ''.tinygit/HEAD'' ''ref: refs/heads/master\<newline>''))"

subsection \<open>\<^verbatim>\<open>tinygit.cpp\<close>\<close>

definition commit_payload :: "u64 \<times> u64 \<Rightarrow> string \<Rightarrow> string" where
  "commit_payload clock message =
     ''tree '' @ ''dummy_sha\<newline>''
     @ ''author me <me@example.com> '' @ show_long (sint (fst clock)) @ '' +0000\<newline>''
     @ ''committer me <me@example.com> '' @ show_long (sint (snd clock)) @ '' +0000\<newline>\<newline>''
     @ message @ ''\<newline>''"

definition main :: "codec \<Rightarrow> u64 \<times> u64 \<Rightarrow> string list \<Rightarrow> filesystem \<Rightarrow> error + outcome" where
  "main z clock argv fs =
     (if length argv < 2
      then Inr \<lparr>exit_code = 1, out = [], err = ''usage: tinygit <command>\<newline>'', files = fs\<rparr>
      else
        let cmd = argv ! 1 in
        if cmd = ''init''
        then (case init_files fs of Inl e \<Rightarrow> Inl e
              | Inr fs' \<Rightarrow>
                 Inr \<lparr>exit_code = 0, out = ''Initialized empty tinygit repo\<newline>'', err = [],
                      files = fs'\<rparr>)
        else if cmd = ''add'' \<and> length argv = 3
        then (case read_bytes fs (argv ! 2) of Inl e \<Rightarrow> Inl e
              | Inr content \<Rightarrow>
                 (case write_object z fs content ''blob'' of Inl e \<Rightarrow> Inl e
                  | Inr (sha, fs') \<Rightarrow> Inr \<lparr>exit_code = 0, out = [], err = [], files = fs'\<rparr>))
        else if cmd = ''commit'' \<and> length argv = 4 \<and> argv ! 2 = ''-m''
        then (case write_object z fs (commit_payload clock (argv ! 3)) ''commit'' of Inl e \<Rightarrow> Inl e
              | Inr (sha, fs') \<Rightarrow>
                 (case substr_n sha 0 7 of Inl e \<Rightarrow> Inl e
                  | Inr s07 \<Rightarrow>
                     Inr \<lparr>exit_code = 0, out = ''[master '' @ s07 @ ''] '' @ argv ! 3 @ ''\<newline>'',
                          err = [], files = update_ref fs' sha\<rparr>))
        else if cmd = ''log''
        then (let sha = resolve_ref fs
              in case read_object z fs sha of Inl e \<Rightarrow> Inl e
                 | Inr payload \<Rightarrow>
                    Inr \<lparr>exit_code = 0, out = payload @ ''\<newline>'', err = [], files = fs\<rparr>)
        else Inr \<lparr>exit_code = 0, out = [], err = ''unknown command\<newline>'', files = fs\<rparr>)"

subsection \<open>The first program of \<^verbatim>\<open>part_000\<close>\<close>

definition main_p0 :: "codec \<Rightarrow> u64 \<times> u64 \<Rightarrow> string list \<Rightarrow> filesystem \<Rightarrow> (error + outcome) option" where
  "main_p0 z clock argv fs =
     (if length argv < 2
      then Some (Inr \<lparr>exit_code = 1, out = [], err = ''usage: tinygit <command>\<newline>'', files = fs\<rparr>)
      else
        let cmd = argv ! 1 in
        if cmd = ''init''
        then (case init_files fs of Inl e \<Rightarrow> Some (Inl e)
              | Inr fs' \<Rightarrow>
                 Some (Inr \<lparr>exit_code = 0, out = ''Initialized empty tinygit repo\<newline>'', err = [],
                            files = fs'\<rparr>))
        else if cmd = ''add'' \<and> length argv = 3
        then (case read_bytes fs (argv ! 2) of Inl e \<Rightarrow> Some (Inl e)
              | Inr content \<Rightarrow>
                 (case write_object_p0 z fs content ''blob'' of Inl e \<Rightarrow> Some (Inl e)
                  | Inr (sha, fs') \<Rightarrow>
                     Some (Inr \<lparr>exit_code = 0, out = [], err = [], files = fs'\<rparr>)))
        else if cmd = ''commit'' \<and> length argv = 4 \<and> argv ! 2 = ''-m''
        then (case write_object_p0 z fs (commit_payload clock (argv ! 3)) ''commit'' of
                Inl e \<Rightarrow> Some (Inl e)
              | Inr (sha, fs') \<Rightarrow>
                 (case substr_n sha 0 7 of Inl e \<Rightarrow> Some (Inl e)
                  | Inr s07 \<Rightarrow>
                     Some (Inr \<lparr>exit_code = 0,
                                out = ''[master '' @ s07 @ ''] '' @ argv ! 3 @ ''\<newline>'',
                                err = [], files = update_ref fs' sha\<rparr>)))
        else if cmd = ''log''
        then (let sha = resolve_ref fs
              in case read_object_p0 z fs sha of None \<Rightarrow> None
                 | Some (Inl e) \<Rightarrow> Some (Inl e)
                 | Some (Inr payload) \<Rightarrow>
                    Some (Inr \<lparr>exit_code = 0, out = payload @ ''\<newline>'', err = [], files = fs\<rparr>))
        else Some (Inr \<lparr>exit_code = 0, out = [], err = ''unknown command\<newline>'', files = fs\<rparr>))"

subsection \<open>The combined program\<close>

text \<open>The combined program reads the clock once. Its \<^verbatim>\<open>add\<close> leaves with a message
  when the stream failed to open, and its \<^verbatim>\<open>log\<close> when no word was extracted.\<close>

definition commit_payload_combined :: "u64 \<Rightarrow> string \<Rightarrow> string" where
  "commit_payload_combined t message =
     ''tree '' @ ''dummy_tree_sha_placeholder'' @ ''\<newline>''
     @ ''author Your Name <you@example.com> '' @ show_long (sint t) @ '' +0000\<newline>''
     @ ''committer Your Name <you@example.com> '' @ show_long (sint t) @ '' +0000\<newline>\<newline>''
     @ message @ ''\<newline>''"

definition main_combined :: "codec \<Rightarrow> u64 \<times> u64 \<Rightarrow> string list \<Rightarrow> filesystem \<Rightarrow> (error + outcome) option" where
  "main_combined z clock argv fs =
     (if length argv < 2
      then Some (Inr \<lparr>exit_code = 1, out = [],
                     err = ''usage: tinygit <command> [<args>...]\<newline>'', files = fs\<rparr>)
      else
        let cmd = argv ! 1 in
        if cmd = ''init''
        then (case init_files fs of Inl e \<Rightarrow> Some (Inl e)
              | Inr fs' \<Rightarrow>
                 Some (Inr \<lparr>exit_code = 0,
                            out = ''Initialized empty tinygit repository in ./.tinygit/\<newline>'',
                            err = [], files = fs'\<rparr>))
        else if cmd = ''add'' \<and> length argv = 3
        then (let file_path = argv ! 2
              in if file_status fs file_path = Absent
                 then Some (Inr \<lparr>exit_code = 1, out = [],
                                 err = ''fatal: could not open file '' @ [CHR 0x27] @ file_path
                                       @ [CHR 0x27] @ ''\<newline>'',
                                 files = fs\<rparr>)
                 else
                   (case read_bytes fs file_path of Inl e \<Rightarrow> Some (Inl e)
                    | Inr content \<Rightarrow>
                       (case write_object_combined z fs content ''blob'' of Inl e \<Rightarrow> Some (Inl e)
                        | Inr (sha, fs') \<Rightarrow>
                           Some (Inr \<lparr>exit_code = 0,
                                      out = ''Staged '' @ file_path @ '' as blob '' @ sha @ ''\<newline>'',
                                      err = [], files = fs'\<rparr>))))
        else if cmd = ''commit'' \<and> length argv = 4 \<and> argv ! 2 = ''-m''
        then (let message = argv ! 3;
                  t = fst clock
              in case write_object_combined z fs (commit_payload_combined t message) ''commit'' of
                   Inl e \<Rightarrow> Some (Inl e)
                 | Inr (commit_sha, fs') \<Rightarrow>
                    (case substr_n commit_sha 0 7 of Inl e \<Rightarrow> Some (Inl e)
                     | Inr s07 \<Rightarrow>
                        Some (Inr \<lparr>exit_code = 0,
                                   out = ''[master '' @ s07 @ ''] '' @ message @ ''\<newline>'',
                                   err = [], files = update_ref fs' commit_sha\<rparr>)))
        else if cmd = ''log''
        then (let sha = resolve_ref fs
              in if sha \<noteq> []
                 then (case read_object_combined z fs sha of None \<Rightarrow> None
                       | Some (Inl e) \<Rightarrow> Some (Inl e)
                       | Some (Inr commit_data) \<Rightarrow>
                          Some (Inr \<lparr>exit_code = 0,
                                     out = ''commit '' @ sha @ ''\<newline>'' @ commit_data @ ''\<newline>'',
                                     err = [], files = fs\<rparr>))
                 else Some (Inr \<lparr>exit_code = 0, out = [], err = ''fatal: no commits yet\<newline>'',
                                files = fs\<rparr>))
        else Some (Inr \<lparr>exit_code = 0, out = [],
                       err = ''tinygit: '' @ [CHR 0x27] @ cmd @ [CHR 0x27]
                             @ '' is not a tinygit command.\<newline>'',
                       files = fs\<rparr>))"

section \<open>Auxiliary notions for the proofs\<close>

text \<open>The \<open>k\<close> low hexadecimal digits of a number, and the characters a stream in
  \<^verbatim>\<open>std::hex\<close> mode can print.\<close>

primrec hex_fixed :: "nat \<Rightarrow> nat \<Rightarrow> string" where
  "hex_fixed 0 n = []"
| "hex_fixed (Suc k) n = hex_fixed k (n div 16) @ [digit_char (n mod 16)]"

definition is_hex :: "char \<Rightarrow> bool" where
  "is_hex c \<longleftrightarrow> c \<in> set ''0123456789abcdef''"

text \<open>The identifier read back from the path of an object: the last two characters of
  the directory \<^verbatim>\<open>.tinygit/objects/xx\<close> and the file name.\<close>

definition id_of_path :: "string \<Rightarrow> string" where
  "id_of_path file = take 2 (drop 17 file) @ drop 20 file"

text \<open>The position of the object of an identifier in the tree, and the file systems in
  which storing it can succeed: those where no regular file stands in the way of the
  directories \<^verbatim>\<open>.tinygit\<close>, \<^verbatim>\<open>.tinygit/objects\<close> and \<^verbatim>\<open>.tinygit/objects/xx\<close>, and no
  directory in the place of the object's file.\<close>

definition object_pos :: "string \<Rightarrow> string list" where
  "object_pos sha = [''.tinygit'', ''objects'', take 2 sha, drop 2 sha]"

definition is_file :: "filesystem \<Rightarrow> string list \<Rightarrow> bool" where
  "is_file fs pos \<longleftrightarrow> (case fs pos of Some (File bytes) \<Rightarrow> True | _ \<Rightarrow> False)"

definition store_ready :: "filesystem \<Rightarrow> string \<Rightarrow> bool" where
  "store_ready fs sha \<longleftrightarrow>
     \<not> is_file fs [''.tinygit''] \<and> \<not> is_file fs [''.tinygit'', ''objects''] \<and>
     \<not> is_file fs [''.tinygit'', ''objects'', take 2 sha] \<and> fs (object_pos sha) \<noteq> Some Dir"

text \<open>The file system in which \<^verbatim>\<open>init\<close> has made a repository from nothing.\<close>

definition fresh_repository :: filesystem where
  "fresh_repository =
     [[''.tinygit''] \<mapsto> Dir, [''.tinygit'', ''objects''] \<mapsto> Dir,
      [''.tinygit'', ''refs''] \<mapsto> Dir, [''.tinygit'', ''refs'', ''heads''] \<mapsto> Dir,
      [''.tinygit'', ''HEAD''] \<mapsto> File ''ref: refs/heads/master\<newline>'']"

text \<open>The commit payload in the words of the specification:
  \<^verbatim>\<open>tree <tree_id>\nauthor <identity> <unix_time> <tz>\ncommitter <identity> <unix_time> <tz>\n\n<message>\n\<close>.\<close>

definition build_commit :: "string \<Rightarrow> string \<Rightarrow> string \<Rightarrow> string \<Rightarrow> string \<Rightarrow> string" where
  "build_commit message tree_id identity unix_time tz =
     ''tree '' @ tree_id @ ''\<newline>''
     @ ''author '' @ identity @ '' '' @ unix_time @ '' '' @ tz @ ''\<newline>''
     @ ''committer '' @ identity @ '' '' @ unix_time @ '' '' @ tz @ ''\<newline>''
     @ ''\<newline>'' @ message @ ''\<newline>''"

text \<open>A name that is an entry of a directory: not empty, not \<^verbatim>\<open>.\<close> or \<^verbatim>\<open>..\<close>, and
  without a slash. The file system after the object of an identifier has been stored
  with some bytes: the three directories exist and the file holds the bytes.\<close>

definition plain_name :: "string \<Rightarrow> bool" where
  "plain_name n \<longleftrightarrow> n \<noteq> [] \<and> n \<noteq> ''.'' \<and> n \<noteq> ''..'' \<and> CHR ''/'' \<notin> set n"

definition with_object :: "filesystem \<Rightarrow> string \<Rightarrow> string \<Rightarrow> filesystem" where
  "with_object fs sha bytes =
     fs([''.tinygit''] \<mapsto> Dir, [''.tinygit'', ''objects''] \<mapsto> Dir,
        [''.tinygit'', ''objects'', take 2 sha] \<mapsto> Dir, object_pos sha \<mapsto> File bytes)"

text \<open>The lines of a text: the pieces between its newline characters.\<close>

fun split_lines :: "string \<Rightarrow> string list" where
  "split_lines [] = [[]]"
| "split_lines (c # cs) =
     (if c = CHR 0x0A then [] # split_lines cs
      else (case split_lines cs of [] \<Rightarrow> [[c]] | l # ls \<Rightarrow> (c # l) # ls))"

section \<open>Hexadecimal output\<close>

lemma digit_char_is_hex: "n < 16 \<Longrightarrow> is_hex (digit_char n)"
proof -
  assume "n < 16"
  then have "n < length ''0123456789abcdef''"
    by simp
  then have "''0123456789abcdef'' ! n \<in> set ''0123456789abcdef''"
    by (rule nth_mem)
  then show ?thesis
    unfolding digit_char_def is_hex_def .
qed

lemma length_hex_fixed: "length (hex_fixed k n) = k"
  by (induction k arbitrary: n) simp_all

lemma hex_fixed_is_hex: "list_all is_hex (hex_fixed k n)"
  by (induction k arbitrary: n) (simp_all add: digit_char_is_hex)

lemma hex_fixed_zero: "hex_fixed k 0 = replicate k (CHR ''0'')"
  by (induction k) (simp_all add: digit_char_def replicate_append_same)

lemma setw_hex_digits: "n < 16 ^ k \<Longrightarrow> 0 < k \<Longrightarrow> setw k (CHR ''0'') (hex_digits n) = hex_fixed k n"
proof (induction k arbitrary: n)
  case 0
  then show ?case by simp
next
  case (Suc k)
  show ?case
  proof (cases "n < 16")
    case True
    then show ?thesis
      by (simp add: hex_digits.simps [of n] setw_def hex_fixed_zero)
  next
    case False
    with Suc.prems have k: "0 < k"
      by (cases k) simp_all
    from Suc.prems have "n div 16 < 16 ^ k"
      by (simp add: less_mult_imp_div_less mult.commute)
    from Suc.IH [OF this k] have ih: "setw k (CHR ''0'') (hex_digits (n div 16)) = hex_fixed k (n div 16)" .
    have "length (hex_digits (n div 16)) \<le> k"
      using ih length_hex_fixed [of k "n div 16"] by (metis setw_def length_append le_add2)
    then show ?thesis
      using False ih by (simp add: hex_digits.simps [of n] setw_def Suc_diff_le)
  qed
qed

lemma hex_fixed_add: "hex_fixed (j + k) n = hex_fixed j (n div 16 ^ k) @ hex_fixed k n"
  by (induction k arbitrary: n) (simp_all add: div_mult2_eq)

lemma hex_fixed_mod: "hex_fixed k (n mod 16 ^ k) = hex_fixed k n"
proof (induction k arbitrary: n)
  case 0
  then show ?case by simp
next
  case (Suc k)
  have a: "n mod (16 * 16 ^ k) div 16 = (n div 16) mod 16 ^ k"
    by (simp add: mod_mult2_eq)
  have b: "n mod (16 * 16 ^ k) mod 16 = n mod 16"
    by (simp add: mod_mod_cancel)
  show ?case
    by (simp add: a b Suc.IH)
qed

lemma hex8_fixed: "hex8 h = hex_fixed 8 (unat h)"
proof -
  have "unat h < 2 ^ 32" using unsigned_less [of h] by simp
  then have "unat h < 16 ^ 8" by simp
  then show ?thesis by (simp add: hex8_def setw_hex_digits)
qed

lemma hex2_fixed: "hex2 b = hex_fixed 2 (unat b)"
proof -
  have "unat b < 2 ^ 8" using unsigned_less [of b] by simp
  then have "unat b < 16 ^ 2" by simp
  then show ?thesis by (simp add: hex2_def setw_hex_digits)
qed

section \<open>Identifiers\<close>

lemma length_hex8: "length (hex8 h) = 8"
  by (simp add: hex8_fixed length_hex_fixed)

lemma length_hex2: "length (hex2 b) = 2"
  by (simp add: hex2_fixed length_hex_fixed)

lemma length_sha1: "length (sha1 data) = 40"
  by (simp add: sha1_def length_hex8 split: prod.splits)

lemma is_hex_sha1: "list_all is_hex (sha1 data)"
  by (simp add: sha1_def hex8_fixed hex_fixed_is_hex split: prod.splits)

lemma fold_append_concat: "fold (\<lambda>i acc. acc @ f i) xs acc = acc @ concat (map f xs)"
  by (induction xs arbitrary: acc) simp_all

lemma sha1_p0_concat: "sha1_p0 data = concat (map (\<lambda>i. hex2 (SHA1 data ! i)) [0..<20])"
  by (simp add: sha1_p0_def fold_append_concat)

lemma length_concat_const: "(\<And>x. x \<in> set xs \<Longrightarrow> length (f x) = k) \<Longrightarrow> length (concat (map f xs)) = k * length xs"
  by (induction xs) simp_all

lemma length_sha1_p0: "length (sha1_p0 data) = 40"
  by (simp add: sha1_p0_concat length_concat_const [where k = 2] length_hex2)

lemma is_hex_sha1_p0: "list_all is_hex (sha1_p0 data)"
  by (simp add: sha1_p0_concat list_all_iff hex2_fixed)
    (metis hex_fixed_is_hex list_all_iff)

lemma sha1_combined_eq: "sha1_combined data = sha1_p0 data"
  by (simp add: sha1_combined_def sha1_p0_def)

section \<open>Paths\<close>

lemma write_path_eq:
  "2 \<le> length sha \<Longrightarrow>
   write_path sha = Inr (''.tinygit/objects/'' @ take 2 sha, ''.tinygit/objects/'' @ take 2 sha @ ''/'' @ drop 2 sha)"
  by (simp add: write_path_def substr_def substr_n_def)

lemma read_path_eq:
  "2 \<le> length sha \<Longrightarrow> read_path sha = Inr (''.tinygit/objects/'' @ take 2 sha @ ''/'' @ drop 2 sha)"
  by (simp add: read_path_def substr_def substr_n_def)

lemma read_path_short: "length sha < 2 \<Longrightarrow> read_path sha = Inl OutOfRange"
  by (simp add: read_path_def substr_def substr_n_def)

lemma read_path_inj:
  assumes "2 \<le> length a" "2 \<le> length b" "read_path a = read_path b"
  shows "a = b"
proof -
  from assms have "take 2 a @ ''/'' @ drop 2 a = take 2 b @ ''/'' @ drop 2 b"
    by (simp add: read_path_eq)
  moreover have "length (take 2 a) = length (take 2 b)"
    using assms by simp
  ultimately have "take 2 a = take 2 b \<and> drop 2 a = drop 2 b"
    by simp
  then show ?thesis
    by (metis append_take_drop_id)
qed

section \<open>The zlib loops\<close>

lemma deflate_loop_eq: "deflate_loop zs compressed = compressed @ zs"
proof (induction zs compressed rule: deflate_loop.induct)
  case (1 zs compressed)
  show ?case
  proof (cases "length zs \<le> 1024")
    case True
    then show ?thesis
      by (simp add: deflate_loop.simps [of zs] deflate_def)
  next
    case False
    then have "deflate_loop zs compressed = deflate_loop (drop 1024 zs) (compressed @ take 1024 zs)"
      by (simp add: deflate_loop.simps [of zs] deflate_def)
    also have "\<dots> = (compressed @ take 1024 zs) @ drop 1024 zs"
      using False by (intro "1.IH") (simp_all add: deflate_def)
    finally show ?thesis by simp
  qed
qed

lemma inflate_loop_eq: "inflate_loop (pending, fin) result = result @ pending"
proof (induction "(pending, fin)" result arbitrary: pending rule: inflate_loop.induct)
  case (1 result)
  have nz: "stop_code fin \<noteq> Z_OK"
    by (cases fin) simp_all
  show ?case
  proof (cases "length pending \<le> 1024")
    case True
    then show ?thesis
      using nz by (simp add: inflate_loop.simps [of "(pending, fin)"] inflate_def)
  next
    case False
    then have "inflate_loop (pending, fin) result = inflate_loop (drop 1024 pending, fin) (result @ take 1024 pending)"
      by (simp add: inflate_loop.simps [of "(pending, fin)"] inflate_def)
    also have "\<dots> = (result @ take 1024 pending) @ drop 1024 pending"
      using False by (intro "1.hyps") (simp_all add: inflate_def)
    finally show ?thesis by simp
  qed
qed

lemma uncompress_retry_complete:
  "inflate_all z compressed = (output, Stream_End) \<Longrightarrow> 0 < n \<Longrightarrow>
   uncompress_retry z compressed n = Some (Z_OK, length output, output)"
proof (induction z compressed n rule: uncompress_retry.induct)
  case (1 z compressed n)
  show ?case
  proof (cases "length output \<le> n")
    case True
    then show ?thesis
      using "1.prems" by (simp add: uncompress_retry.simps [of z compressed n] uncompress_def)
  next
    case False
    then have "uncompress_retry z compressed n = uncompress_retry z compressed (n * 2)"
      using "1.prems" by (simp add: uncompress_retry.simps [of z compressed n] uncompress_def)
    also have "\<dots> = Some (Z_OK, length output, output)"
      using False "1.prems" by (intro "1.IH") (simp_all add: uncompress_def)
    finally show ?thesis .
  qed
qed

lemma uncompress_retry_failed:
  "inflate_all z compressed = (output, fin) \<Longrightarrow> fin \<noteq> Stream_End \<Longrightarrow> 0 < n \<Longrightarrow>
   uncompress_retry z compressed n = Some (Z_DATA_ERROR, length output, output)"
proof (induction z compressed n rule: uncompress_retry.induct)
  case (1 z compressed n)
  show ?case
  proof (cases "length output \<le> n")
    case True
    then show ?thesis
      using "1.prems" by (simp add: uncompress_retry.simps [of z compressed n] uncompress_def)
  next
    case False
    then have "uncompress_retry z compressed n = uncompress_retry z compressed (n * 2)"
      using "1.prems" by (simp add: uncompress_retry.simps [of z compressed n] uncompress_def)
    also have "\<dots> = Some (Z_DATA_ERROR, length output, output)"
      using False "1.prems" by (intro "1.IH") (simp_all add: uncompress_def)
    finally show ?thesis .
  qed
qed

lemma codec_ok_toy: "codec_ok toy_codec"
  by (simp add: codec_ok_def toy_codec_def compressBound_def)

lemma codec_ok_short: "codec_ok (short_codec long)"
  by (simp add: codec_ok_def short_codec_def compressBound_def)

lemma deflate_all_nonempty: "codec_ok z \<Longrightarrow> deflate_all z x \<noteq> []"
proof
  assume ok: "codec_ok z" and e: "deflate_all z x = []"
  from ok have "inflate_all z (deflate_all z x) = (x, Stream_End)"
    by (simp add: codec_ok_def)
  moreover from ok have "inflate_all z [] = ([], Input_End)"
    by (simp add: codec_ok_def)
  ultimately show False
    using e by simp
qed

lemma compress_bound:
  "codec_ok z \<Longrightarrow> compress z (compressBound (length x)) x = (Z_OK, length (deflate_all z x), deflate_all z x)"
  by (simp add: compress_def codec_ok_def Let_def)

section \<open>Decimal numbers and headers\<close>

lemma digit_char_decimal: "n < 10 \<Longrightarrow> digit_char n \<in> set ''0123456789''"
proof -
  assume n: "n < 10"
  then have "take 10 ''0123456789abcdef'' ! n = ''0123456789abcdef'' ! n"
    by (rule nth_take)
  moreover have "take 10 ''0123456789abcdef'' = ''0123456789''"
    by simp
  moreover from n have "''0123456789'' ! n \<in> set ''0123456789''"
    by (intro nth_mem) simp
  ultimately show ?thesis
    unfolding digit_char_def by metis
qed

lemma to_string_decimal: "set (to_string n) \<subseteq> set ''0123456789''"
proof (induction n rule: to_string.induct)
  case (1 n)
  show ?case
  proof (cases "n < 10")
    case True
    then show ?thesis
      using digit_char_decimal [of n] by (simp add: to_string.simps [of n])
  next
    case False
    have "n mod 10 < 10"
      by simp
    then have "digit_char (n mod 10) \<in> set ''0123456789''"
      by (rule digit_char_decimal)
    then show ?thesis
      using False "1.IH" by (simp add: to_string.simps [of n])
  qed
qed

lemma to_string_no_nul: "CHR 0x00 \<notin> set (to_string n)"
  using to_string_decimal [of n] by auto

lemma length_to_string: "n < 10 ^ k \<Longrightarrow> 0 < k \<Longrightarrow> length (to_string n) \<le> k"
proof (induction k arbitrary: n)
  case 0
  then show ?case by simp
next
  case (Suc k)
  show ?case
  proof (cases "n < 10")
    case True
    then show ?thesis
      by (simp add: to_string.simps [of n])
  next
    case False
    with Suc.prems have k: "0 < k"
      by (cases k) simp_all
    from Suc.prems have "n div 10 < 10 ^ k"
      by (simp add: less_mult_imp_div_less mult.commute)
    from Suc.IH [OF this k] show ?thesis
      using False by (simp add: to_string.simps [of n])
  qed
qed

lemma length_to_string_size: "n < 2 ^ 63 \<Longrightarrow> length (to_string n) \<le> 19"
proof -
  assume "n < 2 ^ 63"
  moreover have "(2::nat) ^ 63 < 10 ^ 19"
    by simp
  ultimately have "n < 10 ^ 19"
    by (rule less_trans)
  then show ?thesis
    by (rule length_to_string) simp
qed

lemma find_char_header:
  assumes "c \<notin> set h" "length h + 1 < 2 ^ 64"
  shows "find_char (h @ c # p) c \<noteq> npos" "unat (find_char (h @ c # p) c + 1) = length h + 1"
proof -
  have tw: "takeWhile (\<lambda>x. x \<noteq> c) (h @ c # p) = h"
    using assms(1) by (induction h) auto
  then have f: "find_char (h @ c # p) c = of_nat (length h)"
    by (simp add: find_char_def)
  have u: "unat (of_nat (length h) :: u64) = length h"
    using assms(2) by (simp add: unat_of_nat)
  have "unat (npos :: u64) = 2 ^ 64 - 1"
    by (simp add: npos_def unsigned_minus_1_eq_mask mask_eq_exp_minus_1)
  with u assms(2) show "find_char (h @ c # p) c \<noteq> npos"
    unfolding f by (metis add.commute less_diff_conv nat_neq_iff add_lessD1)
  have "unat (of_nat (length h) + 1 :: u64) = (unat (of_nat (length h) :: u64) + 1) mod 2 ^ 64"
    by (simp add: unat_word_ariths)
  with u assms(2) show "unat (find_char (h @ c # p) c + 1) = length h + 1"
    unfolding f by simp
qed


lemma npos_plus_one: "unat (npos + 1) = 0"
  by (simp add: npos_def)

section \<open>Paths in the tree\<close>

lemma split_path_name: "CHR ''/'' \<notin> set a \<Longrightarrow> split_path a = [a]"
  by (induction a) auto

lemma split_path_sep:
  "CHR ''/'' \<notin> set a \<Longrightarrow> split_path (a @ CHR ''/'' # rest) = a # split_path rest"
  by (induction a) auto

lemma split_path_shard:
  assumes "CHR ''/'' \<notin> set d"
  shows "split_path (''.tinygit/objects/'' @ d) = [''.tinygit'', ''objects'', d]"
  using assms by (simp add: split_path_name)

lemma split_path_object:
  assumes "CHR ''/'' \<notin> set d" and "CHR ''/'' \<notin> set f"
  shows "split_path (''.tinygit/objects/'' @ d @ ''/'' @ f) = [''.tinygit'', ''objects'', d, f]"
  using assms by (simp add: split_path_name split_path_sep)

lemma parent_path_object:
  assumes "CHR ''/'' \<notin> set d" and "d \<noteq> []" and "CHR ''/'' \<notin> set f"
  shows "parent_path (''.tinygit/objects/'' @ d @ ''/'' @ f) = ''.tinygit/objects/'' @ d"
proof -
  let ?p = "''.tinygit/objects/'' @ d @ ''/'' @ f"
  have r: "rev ?p = rev f @ CHR ''/'' # rev (''.tinygit/objects/'' @ d)"
    by simp
  have "dropWhile (\<lambda>c. c \<noteq> CHR ''/'') (rev ?p) = CHR ''/'' # rev (''.tinygit/objects/'' @ d)"
    unfolding r using assms(3) by (subst dropWhile_append2) auto
  moreover have "dropWhile (\<lambda>c. c = CHR ''/'') (CHR ''/'' # rev (''.tinygit/objects/'' @ d))
                   = rev (''.tinygit/objects/'' @ d)"
    using assms(1,2) by (cases d rule: rev_cases) auto
  ultimately show ?thesis
    by (simp add: parent_path_def Let_def)
qed

lemma plain_name_hex:
  assumes "list_all is_hex n" and "n \<noteq> []"
  shows "plain_name n"
proof -
  have h: "\<not> is_hex (CHR ''.'')" "\<not> is_hex (CHR ''/'')"
    by (simp_all add: is_hex_def)
  from assms(1) have a: "\<And>c. c \<in> set n \<Longrightarrow> is_hex c"
    by (simp add: list_all_iff)
  have "CHR ''.'' \<notin> set n" "CHR ''/'' \<notin> set n"
    using a h by blast+
  then have "n \<noteq> ''.''" "n \<noteq> ''..''" "CHR ''/'' \<notin> set n"
    by auto
  with assms(2) show ?thesis
    by (simp add: plain_name_def)
qed

lemma plain_names_of_id:
  assumes "length sha = 40" and "list_all is_hex sha"
  shows "plain_name (take 2 sha)" and "plain_name (drop 2 sha)"
proof -
  from assms(2) have "list_all is_hex (take 2 sha)" "list_all is_hex (drop 2 sha)"
    by (auto simp: list_all_iff dest: in_set_takeD in_set_dropD)
  moreover from assms(1) have "take 2 sha \<noteq> []" "drop 2 sha \<noteq> []"
    by auto
  ultimately show "plain_name (take 2 sha)" and "plain_name (drop 2 sha)"
    by (simp_all add: plain_name_hex)
qed

lemma walk_step:
  "plain_name n \<Longrightarrow>
   walk fs pos (n # ns) = (if is_dir fs pos then walk fs (pos @ [n]) ns else None)"
  by (simp add: plain_name_def)

lemma make_dirs_step:
  assumes "plain_name n"
  shows "make_dirs fs pos (n # ns) =
           (if is_file fs (pos @ [n]) then Inl FilesystemError
            else make_dirs (fs(pos @ [n] \<mapsto> Dir)) (pos @ [n]) ns)"
proof (cases "fs (pos @ [n])")
  case None
  with assms show ?thesis
    by (simp add: plain_name_def is_file_def)
next
  case (Some x)
  show ?thesis
  proof (cases x)
    case (File bytes)
    with Some assms show ?thesis
      by (simp add: plain_name_def is_file_def)
  next
    case Dir
    with Some have "fs(pos @ [n] \<mapsto> Dir) = fs"
      by (simp add: map_upd_triv)
    with Some Dir assms show ?thesis
      by (simp add: plain_name_def is_file_def)
  qed
qed

lemma plain_name_literals: "plain_name ''.tinygit''" "plain_name ''objects''"
  "plain_name ''refs''" "plain_name ''heads''" "plain_name ''master''" "plain_name ''HEAD''"
  by (simp_all add: plain_name_def)

lemma create_directories_shard:
  assumes "plain_name d"
  shows "create_directories fs (''.tinygit/objects/'' @ d) =
           (if is_file fs [''.tinygit''] \<or> is_file fs [''.tinygit'', ''objects'']
               \<or> is_file fs [''.tinygit'', ''objects'', d]
            then Inl FilesystemError
            else Inr (fs([''.tinygit''] \<mapsto> Dir, [''.tinygit'', ''objects''] \<mapsto> Dir,
                         [''.tinygit'', ''objects'', d] \<mapsto> Dir)))"
proof -
  from assms have "CHR ''/'' \<notin> set d"
    by (simp add: plain_name_def)
  then have s: "split_path (''.tinygit/objects/'' @ d) = [''.tinygit'', ''objects'', d]"
    by (rule split_path_shard)
  have u: "is_file (fs([''.tinygit''] \<mapsto> Dir)) [''.tinygit'', ''objects'']
             = is_file fs [''.tinygit'', ''objects'']"
    "is_file (fs([''.tinygit''] \<mapsto> Dir, [''.tinygit'', ''objects''] \<mapsto> Dir)) [''.tinygit'', ''objects'', d]
             = is_file fs [''.tinygit'', ''objects'', d]"
    by (simp_all add: is_file_def)
  have "make_dirs fs [] [''.tinygit'', ''objects'', d] =
           (if is_file fs [''.tinygit''] \<or> is_file fs [''.tinygit'', ''objects'']
               \<or> is_file fs [''.tinygit'', ''objects'', d]
            then Inl FilesystemError
            else Inr (fs([''.tinygit''] \<mapsto> Dir, [''.tinygit'', ''objects''] \<mapsto> Dir,
                         [''.tinygit'', ''objects'', d] \<mapsto> Dir)))"
    using u by (simp add: make_dirs_step plain_name_literals assms del: make_dirs.simps(2))
  then show ?thesis
    unfolding create_directories_def s by simp
qed

lemma locate_object:
  assumes "plain_name d" and "plain_name f"
    and "fs [''.tinygit''] = Some Dir" and "fs [''.tinygit'', ''objects''] = Some Dir"
    and "fs [''.tinygit'', ''objects'', d] = Some Dir"
  shows "locate fs (''.tinygit/objects/'' @ d @ ''/'' @ f) = Some [''.tinygit'', ''objects'', d, f]"
proof -
  from assms(1,2) have "CHR ''/'' \<notin> set d" "CHR ''/'' \<notin> set f"
    by (simp_all add: plain_name_def)
  then have s: "split_path (''.tinygit/objects/'' @ d @ ''/'' @ f) = [''.tinygit'', ''objects'', d, f]"
    by (rule split_path_object)
  have "walk fs [] [''.tinygit'', ''objects'', d, f] = Some [''.tinygit'', ''objects'', d, f]"
    using assms by (simp add: walk_step plain_name_literals is_dir_def del: walk.simps(2))
  then show ?thesis
    unfolding locate_def s by simp
qed

lemma file_status_with_object:
  assumes "length sha = 40" and "list_all is_hex sha"
  shows "file_status (with_object fs sha bytes)
           (''.tinygit/objects/'' @ take 2 sha @ ''/'' @ drop 2 sha) = Regular bytes"
proof -
  note n = plain_names_of_id [OF assms]
  have "locate (with_object fs sha bytes) (''.tinygit/objects/'' @ take 2 sha @ ''/'' @ drop 2 sha)
          = Some (object_pos sha)"
    unfolding object_pos_def
    by (rule locate_object [OF n]) (simp_all add: with_object_def object_pos_def)
  then show ?thesis
    by (simp add: file_status_def is_dir_def with_object_def object_pos_def)
qed

lemma write_file_object:
  assumes "length sha = 40" and "list_all is_hex sha" and "fs (object_pos sha) \<noteq> Some Dir"
  shows "write_file (fs([''.tinygit''] \<mapsto> Dir, [''.tinygit'', ''objects''] \<mapsto> Dir,
                         [''.tinygit'', ''objects'', take 2 sha] \<mapsto> Dir))
           (''.tinygit/objects/'' @ take 2 sha @ ''/'' @ drop 2 sha) bytes
         = with_object fs sha bytes"
proof -
  note n = plain_names_of_id [OF assms(1,2)]
  let ?fs = "fs([''.tinygit''] \<mapsto> Dir, [''.tinygit'', ''objects''] \<mapsto> Dir,
                         [''.tinygit'', ''objects'', take 2 sha] \<mapsto> Dir)"
  have "locate ?fs (''.tinygit/objects/'' @ take 2 sha @ ''/'' @ drop 2 sha) = Some (object_pos sha)"
    unfolding object_pos_def by (rule locate_object [OF n]) simp_all
  moreover have "\<not> is_dir ?fs (object_pos sha)"
    using assms(3) by (simp add: is_dir_def object_pos_def)
  ultimately show ?thesis
    by (simp add: write_file_def with_object_def)
qed

lemma with_object_again: "with_object (with_object fs sha bytes) sha bytes = with_object fs sha bytes"
  by (rule ext) (simp add: with_object_def object_pos_def)

lemma store_ready_with_object: "store_ready (with_object fs sha bytes) sha"
  by (simp add: store_ready_def with_object_def object_pos_def is_file_def)

lemma store_ready_empty: "store_ready Map.empty sha"
  by (simp add: store_ready_def is_file_def)

section \<open>Writing and reading objects in \<^verbatim>\<open>tinygit.cpp\<close>\<close>

lemma write_object_eq:
  "write_object z fs data type =
     (let store = store_encoding data type;
          sha = sha1 store;
          content = deflate_all z (take (length store mod 2 ^ 32) store)
      in if is_file fs [''.tinygit''] \<or> is_file fs [''.tinygit'', ''objects'']
            \<or> is_file fs [''.tinygit'', ''objects'', take 2 sha]
         then Inl FilesystemError
         else if fs (object_pos sha) = Some Dir
         then Inr (sha, fs([''.tinygit''] \<mapsto> Dir, [''.tinygit'', ''objects''] \<mapsto> Dir,
                           [''.tinygit'', ''objects'', take 2 sha] \<mapsto> Dir))
         else Inr (sha, with_object fs sha content))"
proof -
  let ?store = "store_encoding data type"
  let ?sha = "sha1 ?store"
  let ?fs1 = "fs([''.tinygit''] \<mapsto> Dir, [''.tinygit'', ''objects''] \<mapsto> Dir,
                 [''.tinygit'', ''objects'', take 2 ?sha] \<mapsto> Dir)"
  let ?file = "''.tinygit/objects/'' @ take 2 ?sha @ ''/'' @ drop 2 ?sha"
  note n = plain_names_of_id [OF length_sha1 is_hex_sha1, of ?store]
  have p: "write_path ?sha = Inr (''.tinygit/objects/'' @ take 2 ?sha, ?file)"
    by (simp add: write_path_eq length_sha1)
  have d: "fs (object_pos ?sha) = Some Dir \<Longrightarrow> write_file ?fs1 ?file bytes = ?fs1" for bytes
  proof -
    assume a: "fs (object_pos ?sha) = Some Dir"
    have "locate ?fs1 ?file = Some (object_pos ?sha)"
      unfolding object_pos_def by (rule locate_object [OF n]) simp_all
    moreover have "is_dir ?fs1 (object_pos ?sha)"
      using a by (simp add: is_dir_def object_pos_def)
    ultimately show ?thesis
      by (simp add: write_file_def)
  qed
  note c = create_directories_shard [OF n(1), of fs, simplified]
  note w = write_file_object [OF length_sha1 is_hex_sha1, of fs ?store, simplified]
  show ?thesis
    unfolding write_object_def Let_def p
    by (simp add: c deflate_loop_eq d [simplified] w)
qed

lemma write_object_ready:
  "store_ready fs (sha1 (store_encoding data type)) \<Longrightarrow>
   write_object z fs data type =
     Inr (sha1 (store_encoding data type),
          with_object fs (sha1 (store_encoding data type))
            (deflate_all z (take (length (store_encoding data type) mod 2 ^ 32)
                              (store_encoding data type))))"
  by (simp add: write_object_eq store_ready_def Let_def)

lemma write_object_id:
  "write_object z fs data type = Inr (sha, fs') \<Longrightarrow> sha = sha1 (store_encoding data type)"
  by (auto simp: write_object_eq Let_def split: if_splits)

lemma read_object_eq:
  "2 \<le> length sha \<Longrightarrow>
   read_object z fs sha =
     (case read_bytes fs (''.tinygit/objects/'' @ take 2 sha @ ''/'' @ drop 2 sha) of
        Inl e \<Rightarrow> Inl e
      | Inr compressed \<Rightarrow>
          let result = fst (inflate_all z (take (length compressed mod 2 ^ 32) compressed))
          in substr result (unat (find_char result (CHR 0x00) + 1)))"
proof (cases "read_bytes fs (''.tinygit/objects/'' @ take 2 sha @ ''/'' @ drop 2 sha)")
  case (Inl e)
  assume "2 \<le> length sha"
  with Inl show ?thesis
    by (simp add: read_object_def read_path_eq)
next
  case (Inr compressed)
  assume "2 \<le> length sha"
  with Inr show ?thesis
    by (cases "inflate_all z (take (length compressed mod 2 ^ 32) compressed)")
      (simp add: read_object_def read_path_eq Let_def inflate_loop_eq)
qed

lemma read_object_short: "length sha < 2 \<Longrightarrow> read_object z fs sha = Inl OutOfRange"
  by (simp add: read_object_def read_path_short)

lemma extract_word_Nil: "extract_word [] = []"
  by (simp add: extract_word_def)

lemma resolve_ref_missing:
  "file_status fs ''.tinygit/refs/heads/master'' = Absent
     \<or> file_status fs ''.tinygit/refs/heads/master'' = Regular [] \<Longrightarrow>
   resolve_ref fs = []"
  by (auto simp: resolve_ref_def extract_word_Nil)

lemma main_log_eq:
  "main z clock [''tinygit'', ''log''] fs =
     (case read_object z fs (resolve_ref fs) of Inl e \<Rightarrow> Inl e
      | Inr payload \<Rightarrow> Inr \<lparr>exit_code = 0, out = payload @ ''\<newline>'', err = [], files = fs\<rparr>)"
  by (simp add: main_def Let_def)

lemma find_char_substr_ok: "unat (find_char s c + 1) \<le> length s"
proof (cases "c \<in> set s")
  case True
  let ?i = "length (takeWhile (\<lambda>x. x \<noteq> c) s)"
  from True have "?i < length s"
    by (induction s) auto
  moreover have "unat (of_nat ?i + 1 :: u64) \<le> ?i + 1"
  proof -
    have "unat (of_nat ?i + 1 :: u64) = (unat (of_nat ?i :: u64) + 1) mod 2 ^ 64"
      by (simp add: unat_word_ariths)
    also have "\<dots> \<le> unat (of_nat ?i :: u64) + 1"
      by (rule mod_less_eq_dividend)
    also have "unat (of_nat ?i :: u64) \<le> ?i"
      by (simp add: unat_of_nat)
    finally show ?thesis
      by simp
  qed
  ultimately show ?thesis
    using True by (simp add: find_char_def)
next
  case False
  then show ?thesis
    by (simp add: find_char_def npos_def)
qed


lemma substr_find_char: "substr s (unat (find_char s c + 1)) \<noteq> Inl OutOfRange"
  using find_char_substr_ok [of s c] by (simp add: substr_def)

lemma read_bytes_error: "read_bytes fs path \<noteq> Inl OutOfRange"
  by (simp add: read_bytes_def split: status.splits)

lemma read_object_long:
  assumes "2 \<le> length sha"
  shows "read_object z fs sha \<noteq> Inl OutOfRange"
proof (cases "read_bytes fs (''.tinygit/objects/'' @ take 2 sha @ ''/'' @ drop 2 sha)")
  case (Inl e)
  with read_bytes_error [of fs "''.tinygit/objects/'' @ take 2 sha @ ''/'' @ drop 2 sha"]
  have "e \<noteq> OutOfRange"
    by auto
  with Inl show ?thesis
    unfolding read_object_eq [OF assms] by simp
next
  case (Inr compressed)
  then show ?thesis
    unfolding read_object_eq [OF assms] by (simp add: Let_def substr_find_char)
qed

text \<open>
  C10: \<^verbatim>\<open>read_object\<close> of \<^verbatim>\<open>tinygit.cpp\<close> needs an identifier of at least two
  characters: for a shorter one \<^verbatim>\<open>sha.substr(2)\<close> throws \<^verbatim>\<open>std::out_of_range\<close>, and for
  no longer one does the function throw that exception. The log command reaches it:
  when the file of the branch is missing or empty it reads the empty word and passes
  it on.
\<close>

theorem read_object_needs_two_characters:
  "(length sha < 2 \<longrightarrow> read_object z fs sha = Inl OutOfRange) \<and>
   (2 \<le> length sha \<longrightarrow> read_object z fs sha \<noteq> Inl OutOfRange) \<and>
   (file_status fs ''.tinygit/refs/heads/master'' = Absent
      \<or> file_status fs ''.tinygit/refs/heads/master'' = Regular [] \<longrightarrow>
      resolve_ref fs = [] \<and> main z clock [''tinygit'', ''log''] fs = Inl OutOfRange)"
proof (intro conjI impI)
  assume "length sha < 2"
  then show "read_object z fs sha = Inl OutOfRange"
    by (rule read_object_short)
next
  assume "2 \<le> length sha"
  then show "read_object z fs sha \<noteq> Inl OutOfRange"
    by (rule read_object_long)
next
  assume a: "file_status fs ''.tinygit/refs/heads/master'' = Absent
      \<or> file_status fs ''.tinygit/refs/heads/master'' = Regular []"
  then show "resolve_ref fs = []"
    by (rule resolve_ref_missing)
  then show "main z clock [''tinygit'', ''log''] fs = Inl OutOfRange"
    by (simp add: main_log_eq read_object_short)
qed

lemma file_status_master_empty: "file_status Map.empty ''.tinygit/refs/heads/master'' = Absent"
  by (simp add: file_status_def locate_def is_dir_def)

theorem read_object_needs_two_characters_witness:
  "length ''a'' < 2 \<and> read_object toy_codec Map.empty ''a'' = Inl OutOfRange \<and>
   2 \<le> length ''ab'' \<and> read_object toy_codec Map.empty ''ab'' \<noteq> Inl OutOfRange \<and>
   file_status Map.empty ''.tinygit/refs/heads/master'' = Absent \<and>
   resolve_ref Map.empty = [] \<and>
   main toy_codec (0, 0) [''tinygit'', ''log''] Map.empty = Inl OutOfRange"
  using read_object_needs_two_characters [of "''a''" toy_codec Map.empty "(0, 0)"]
    read_object_needs_two_characters [of "''ab''" toy_codec Map.empty "(0, 0)"]
  by (simp add: file_status_master_empty)

lemma store_encoding_hello: "store_encoding ''hello\<newline>'' ''blob'' = ''blob 6hello\<newline>''"
  by (simp add: store_encoding_def c_str_def to_string.simps digit_char_def)

text \<open>
  C8: for every object that \<^verbatim>\<open>write_object\<close> of \<^verbatim>\<open>tinygit.cpp\<close> stores, the
  directory of the stored file is \<^verbatim>\<open>.tinygit/objects/\<close> followed by the first two
  hexadecimal characters of the identifier, the file name is the other 38, and both
  together are the identifier again; the identifier is recovered from the path, so
  that identifiers and paths correspond one to one; and \<^verbatim>\<open>read_object\<close> computes the
  same path from the identifier. Unless a directory stands in the place of the file,
  the file at that path holds the compression of the first \<open>size mod 2 ^ 32\<close> bytes of
  the encoding, which are all its bytes when it has fewer than \<open>2 ^ 32\<close>.
\<close>

theorem shard_path_of_written_object:
  assumes "write_object z fs data type = Inr (sha, fs')"
  shows "write_path sha = Inr (''.tinygit/objects/'' @ take 2 sha,
                                ''.tinygit/objects/'' @ take 2 sha @ ''/'' @ drop 2 sha) \<and>
         (fs (object_pos sha) \<noteq> Some Dir \<longrightarrow>
            file_status fs' (''.tinygit/objects/'' @ take 2 sha @ ''/'' @ drop 2 sha) =
              Regular (deflate_all z (take (length (store_encoding data type) mod 2 ^ 32)
                                        (store_encoding data type)))) \<and>
         (fs (object_pos sha) \<noteq> Some Dir \<and> length (store_encoding data type) < 2 ^ 32 \<longrightarrow>
            file_status fs' (''.tinygit/objects/'' @ take 2 sha @ ''/'' @ drop 2 sha) =
              Regular (deflate_all z (store_encoding data type))) \<and>
         length (take 2 sha) = 2 \<and> length (drop 2 sha) = 38 \<and> list_all is_hex sha \<and>
         take 2 sha @ drop 2 sha = sha \<and>
         id_of_path (''.tinygit/objects/'' @ take 2 sha @ ''/'' @ drop 2 sha) = sha \<and>
         read_path sha = Inr (''.tinygit/objects/'' @ take 2 sha @ ''/'' @ drop 2 sha)"
proof -
  let ?store = "store_encoding data type"
  let ?file = "''.tinygit/objects/'' @ take 2 sha @ ''/'' @ drop 2 sha"
  from assms have sha: "sha = sha1 ?store"
    by (rule write_object_id)
  have len: "length sha = 40"
    by (simp add: sha length_sha1)
  have hex: "list_all is_hex sha"
    by (simp add: sha is_hex_sha1)
  have stored: "file_status fs' ?file = Regular (deflate_all z (take (length ?store mod 2 ^ 32) ?store))"
    if "fs (object_pos sha) \<noteq> Some Dir"
  proof -
    from assms that have "fs' = with_object fs sha (deflate_all z (take (length ?store mod 2 ^ 32) ?store))"
      unfolding sha by (simp add: write_object_eq Let_def split: if_splits)
    then show ?thesis
      using file_status_with_object [OF len hex] by simp
  qed
  have "id_of_path ?file = sha"
    using len by (simp add: id_of_path_def)
  then show ?thesis
    using len hex stored by (simp add: write_path_eq read_path_eq)
qed

theorem shard_path_of_written_object_witness:
  "write_object toy_codec Map.empty ''hello\<newline>'' ''blob'' =
     Inr (sha1 ''blob 6hello\<newline>'',
          with_object Map.empty (sha1 ''blob 6hello\<newline>'') (CHR 0x78 # ''blob 6hello\<newline>'')) \<and>
   (Map.empty :: filesystem) (object_pos (sha1 ''blob 6hello\<newline>'')) \<noteq> Some Dir \<and>
   length (store_encoding ''hello\<newline>'' ''blob'') < 2 ^ 32 \<and>
   file_status (with_object Map.empty (sha1 ''blob 6hello\<newline>'') (CHR 0x78 # ''blob 6hello\<newline>''))
     (''.tinygit/objects/'' @ take 2 (sha1 ''blob 6hello\<newline>'') @ ''/''
        @ drop 2 (sha1 ''blob 6hello\<newline>'')) = Regular (CHR 0x78 # ''blob 6hello\<newline>'') \<and>
   length (take 2 (sha1 ''blob 6hello\<newline>'')) = 2 \<and>
   length (drop 2 (sha1 ''blob 6hello\<newline>'')) = 38 \<and>
   id_of_path (''.tinygit/objects/'' @ take 2 (sha1 ''blob 6hello\<newline>'') @ ''/''
                 @ drop 2 (sha1 ''blob 6hello\<newline>'')) = sha1 ''blob 6hello\<newline>'' \<and>
   read_path (sha1 ''blob 6hello\<newline>'') =
     Inr (''.tinygit/objects/'' @ take 2 (sha1 ''blob 6hello\<newline>'') @ ''/''
            @ drop 2 (sha1 ''blob 6hello\<newline>''))"
proof -
  have w: "write_object toy_codec Map.empty ''hello\<newline>'' ''blob'' =
     Inr (sha1 ''blob 6hello\<newline>'',
          with_object Map.empty (sha1 ''blob 6hello\<newline>'') (CHR 0x78 # ''blob 6hello\<newline>''))"
    by (simp add: write_object_ready store_ready_empty store_encoding_hello toy_codec_def)
  have l: "length (store_encoding ''hello\<newline>'' ''blob'') < 2 ^ 32"
    by (simp add: store_encoding_hello)
  show ?thesis
    using shard_path_of_written_object [OF w] w l
    by (simp add: store_encoding_hello toy_codec_def)
qed

section \<open>Determinism of writing\<close>

lemma store_at:
  assumes "length sha = 40" and "list_all is_hex sha"
  shows "(case create_directories fs (''.tinygit/objects/'' @ take 2 sha) of
            Inl e \<Rightarrow> Inl e
          | Inr fs1 \<Rightarrow>
              Inr (sha, write_file fs1 (''.tinygit/objects/'' @ take 2 sha @ ''/'' @ drop 2 sha) bytes))
         = (if is_file fs [''.tinygit''] \<or> is_file fs [''.tinygit'', ''objects'']
               \<or> is_file fs [''.tinygit'', ''objects'', take 2 sha]
            then Inl FilesystemError
            else if fs (object_pos sha) = Some Dir
            then Inr (sha, fs([''.tinygit''] \<mapsto> Dir, [''.tinygit'', ''objects''] \<mapsto> Dir,
                              [''.tinygit'', ''objects'', take 2 sha] \<mapsto> Dir))
            else Inr (sha, with_object fs sha bytes))"
proof -
  let ?fs1 = "fs([''.tinygit''] \<mapsto> Dir, [''.tinygit'', ''objects''] \<mapsto> Dir,
                 [''.tinygit'', ''objects'', take 2 sha] \<mapsto> Dir)"
  let ?file = "''.tinygit/objects/'' @ take 2 sha @ ''/'' @ drop 2 sha"
  note n = plain_names_of_id [OF assms]
  have d: "fs (object_pos sha) = Some Dir \<Longrightarrow> write_file ?fs1 ?file bytes = ?fs1"
  proof -
    assume a: "fs (object_pos sha) = Some Dir"
    have "locate ?fs1 ?file = Some (object_pos sha)"
      unfolding object_pos_def by (rule locate_object [OF n]) simp_all
    moreover have "is_dir ?fs1 (object_pos sha)"
      using a by (simp add: is_dir_def object_pos_def)
    ultimately show ?thesis
      by (simp add: write_file_def)
  qed
  note c = create_directories_shard [OF n(1), of fs, simplified]
  note w = write_file_object [OF assms, of fs bytes, simplified]
  show ?thesis
    by (simp add: c d [simplified] w)
qed

lemma write_object_p0_eq:
  "write_object_p0 z fs data type =
     (let store = store_encoding_p0 data type;
          sha = sha1_p0 store;
          content = (case compress z (compressBound (length store)) store of
                       (ret, len, compressed) \<Rightarrow> take len compressed)
      in if is_file fs [''.tinygit''] \<or> is_file fs [''.tinygit'', ''objects'']
            \<or> is_file fs [''.tinygit'', ''objects'', take 2 sha]
         then Inl FilesystemError
         else if fs (object_pos sha) = Some Dir
         then Inr (sha, fs([''.tinygit''] \<mapsto> Dir, [''.tinygit'', ''objects''] \<mapsto> Dir,
                           [''.tinygit'', ''objects'', take 2 sha] \<mapsto> Dir))
         else Inr (sha, with_object fs sha content))"
proof -
  let ?store = "store_encoding_p0 data type"
  let ?sha = "sha1_p0 ?store"
  let ?file = "''.tinygit/objects/'' @ take 2 ?sha @ ''/'' @ drop 2 ?sha"
  note n = plain_names_of_id [OF length_sha1_p0 is_hex_sha1_p0, of ?store]
  have p: "read_path ?sha = Inr ?file"
    by (simp add: read_path_eq length_sha1_p0)
  have pp: "parent_path ?file = ''.tinygit/objects/'' @ take 2 ?sha"
    using n by (intro parent_path_object) (simp_all add: plain_name_def)
  obtain ret len compressed
    where c: "compress z (compressBound (length ?store)) ?store = (ret, len, compressed)"
    by (cases "compress z (compressBound (length ?store)) ?store")
  show ?thesis
    unfolding write_object_p0_def Let_def c prod.case p sum.case pp
    by (rule store_at [OF length_sha1_p0 is_hex_sha1_p0])
qed

lemma write_object_p0_ready:
  "store_ready fs (sha1_p0 (store_encoding_p0 data type)) \<Longrightarrow>
   write_object_p0 z fs data type =
     Inr (sha1_p0 (store_encoding_p0 data type),
          with_object fs (sha1_p0 (store_encoding_p0 data type))
            (case compress z (compressBound (length (store_encoding_p0 data type)))
                    (store_encoding_p0 data type) of
               (ret, len, compressed) \<Rightarrow> take len compressed))"
  by (simp add: write_object_p0_eq store_ready_def Let_def)

lemma write_object_p0_id:
  "write_object_p0 z fs data type = Inr (sha, fs') \<Longrightarrow> sha = sha1_p0 (store_encoding_p0 data type)"
  by (auto simp: write_object_p0_eq Let_def split: if_splits)

text \<open>
  C6: \<^verbatim>\<open>write_object\<close> is deterministic and idempotent, in \<^verbatim>\<open>tinygit.cpp\<close> and in
  \<^verbatim>\<open>part_000\<close>. The identifier a call returns depends on the payload and the kind
  only. From every file system in which the object can be stored (no regular file in
  the way of its directories, no directory in the place of its file) the call returns
  that identifier and leaves the file of the identifier with bytes that depend on
  codec, payload and kind only; writing the same object again returns the same
  identifier and leaves the file system as it is; and written from any other such
  file system the same object has the same identifier and the same bytes in the file
  of that identifier.
\<close>

theorem write_object_idempotent:
  "(write_object z fs p k = Inr (sha, fs1) \<and> write_object z fs' p k = Inr (sha', fs2) \<longrightarrow> sha = sha') \<and>
   (write_object_p0 z fs p k = Inr (sha, fs1) \<and> write_object_p0 z fs' p k = Inr (sha', fs2) \<longrightarrow>
      sha = sha') \<and>
   (store_ready fs (sha1 (store_encoding p k)) \<and> store_ready fs' (sha1 (store_encoding p k)) \<longrightarrow>
    (\<exists>sha dir file content fs1 fs2.
      write_object z fs p k = Inr (sha, fs1) \<and> write_path sha = Inr (dir, file) \<and>
      file_status fs1 file = Regular content \<and>
      write_object z fs1 p k = Inr (sha, fs1) \<and>
      write_object z fs' p k = Inr (sha, fs2) \<and> file_status fs2 file = Regular content)) \<and>
   (store_ready fs (sha1_p0 (store_encoding_p0 p k)) \<and>
    store_ready fs' (sha1_p0 (store_encoding_p0 p k)) \<longrightarrow>
    (\<exists>sha file content fs1 fs2.
      write_object_p0 z fs p k = Inr (sha, fs1) \<and> read_path sha = Inr file \<and>
      file_status fs1 file = Regular content \<and>
      write_object_p0 z fs1 p k = Inr (sha, fs1) \<and>
      write_object_p0 z fs' p k = Inr (sha, fs2) \<and> file_status fs2 file = Regular content))"
proof (intro conjI impI)
  assume "write_object z fs p k = Inr (sha, fs1) \<and> write_object z fs' p k = Inr (sha', fs2)"
  then show "sha = sha'"
    by (auto dest!: write_object_id)
next
  assume "write_object_p0 z fs p k = Inr (sha, fs1) \<and> write_object_p0 z fs' p k = Inr (sha', fs2)"
  then show "sha = sha'"
    by (auto dest!: write_object_p0_id)
next
  let ?sha = "sha1 (store_encoding p k)"
  let ?file = "''.tinygit/objects/'' @ take 2 ?sha @ ''/'' @ drop 2 ?sha"
  let ?content = "deflate_all z (take (length (store_encoding p k) mod 2 ^ 32) (store_encoding p k))"
  assume r: "store_ready fs ?sha \<and> store_ready fs' ?sha"
  have "write_path ?sha = Inr (''.tinygit/objects/'' @ take 2 ?sha, ?file)"
    by (simp add: write_path_eq length_sha1)
  moreover have "write_object z fs p k = Inr (?sha, with_object fs ?sha ?content)"
    using r by (simp add: write_object_ready)
  moreover have "write_object z (with_object fs ?sha ?content) p k = Inr (?sha, with_object fs ?sha ?content)"
    by (simp add: write_object_ready store_ready_with_object with_object_again)
  moreover have "write_object z fs' p k = Inr (?sha, with_object fs' ?sha ?content)"
    using r by (simp add: write_object_ready)
  moreover have "file_status (with_object fs ?sha ?content) ?file = Regular ?content"
    "file_status (with_object fs' ?sha ?content) ?file = Regular ?content"
    by (rule file_status_with_object [OF length_sha1 is_hex_sha1])+
  ultimately show "\<exists>sha dir file content fs1 fs2.
      write_object z fs p k = Inr (sha, fs1) \<and> write_path sha = Inr (dir, file) \<and>
      file_status fs1 file = Regular content \<and>
      write_object z fs1 p k = Inr (sha, fs1) \<and>
      write_object z fs' p k = Inr (sha, fs2) \<and> file_status fs2 file = Regular content"
    by (intro exI [of _ ?sha] exI [of _ "''.tinygit/objects/'' @ take 2 ?sha"] exI [of _ ?file]
        exI [of _ ?content] exI [of _ "with_object fs ?sha ?content"]
        exI [of _ "with_object fs' ?sha ?content"])
      simp
next
  let ?sha = "sha1_p0 (store_encoding_p0 p k)"
  let ?file = "''.tinygit/objects/'' @ take 2 ?sha @ ''/'' @ drop 2 ?sha"
  let ?content = "case compress z (compressBound (length (store_encoding_p0 p k)))
                         (store_encoding_p0 p k) of (ret, len, compressed) \<Rightarrow> take len compressed"
  assume r: "store_ready fs ?sha \<and> store_ready fs' ?sha"
  have "read_path ?sha = Inr ?file"
    by (simp add: read_path_eq length_sha1_p0)
  moreover have "write_object_p0 z fs p k = Inr (?sha, with_object fs ?sha ?content)"
    using r by (simp add: write_object_p0_ready)
  moreover have "write_object_p0 z (with_object fs ?sha ?content) p k = Inr (?sha, with_object fs ?sha ?content)"
    by (simp add: write_object_p0_ready store_ready_with_object with_object_again)
  moreover have "write_object_p0 z fs' p k = Inr (?sha, with_object fs' ?sha ?content)"
    using r by (simp add: write_object_p0_ready)
  moreover have "file_status (with_object fs ?sha ?content) ?file = Regular ?content"
    "file_status (with_object fs' ?sha ?content) ?file = Regular ?content"
    by (rule file_status_with_object [OF length_sha1_p0 is_hex_sha1_p0])+
  ultimately show "\<exists>sha file content fs1 fs2.
      write_object_p0 z fs p k = Inr (sha, fs1) \<and> read_path sha = Inr file \<and>
      file_status fs1 file = Regular content \<and>
      write_object_p0 z fs1 p k = Inr (sha, fs1) \<and>
      write_object_p0 z fs' p k = Inr (sha, fs2) \<and> file_status fs2 file = Regular content"
    by (intro exI [of _ ?sha] exI [of _ ?file]
        exI [of _ ?content] exI [of _ "with_object fs ?sha ?content"]
        exI [of _ "with_object fs' ?sha ?content"])
      simp
qed

lemma store_ready_one_file: "store_ready [[''notes''] \<mapsto> File ''x''] sha"
  by (simp add: store_ready_def is_file_def object_pos_def)

theorem write_object_idempotent_witness:
  "store_ready Map.empty (sha1 (store_encoding ''hello\<newline>'' ''blob'')) \<and>
   store_ready [[''notes''] \<mapsto> File ''x''] (sha1 (store_encoding ''hello\<newline>'' ''blob'')) \<and>
   (\<exists>sha dir file content fs1 fs2.
      write_object toy_codec Map.empty ''hello\<newline>'' ''blob'' = Inr (sha, fs1) \<and>
      write_path sha = Inr (dir, file) \<and>
      file_status fs1 file = Regular content \<and>
      write_object toy_codec fs1 ''hello\<newline>'' ''blob'' = Inr (sha, fs1) \<and>
      write_object toy_codec [[''notes''] \<mapsto> File ''x''] ''hello\<newline>'' ''blob'' = Inr (sha, fs2) \<and>
      file_status fs2 file = Regular content) \<and>
   store_ready Map.empty (sha1_p0 (store_encoding_p0 ''hello\<newline>'' ''blob'')) \<and>
   store_ready [[''notes''] \<mapsto> File ''x''] (sha1_p0 (store_encoding_p0 ''hello\<newline>'' ''blob'')) \<and>
   (\<exists>sha file content fs1 fs2.
      write_object_p0 toy_codec Map.empty ''hello\<newline>'' ''blob'' = Inr (sha, fs1) \<and>
      read_path sha = Inr file \<and>
      file_status fs1 file = Regular content \<and>
      write_object_p0 toy_codec fs1 ''hello\<newline>'' ''blob'' = Inr (sha, fs1) \<and>
      write_object_p0 toy_codec [[''notes''] \<mapsto> File ''x''] ''hello\<newline>'' ''blob'' = Inr (sha, fs2) \<and>
      file_status fs2 file = Regular content)"
  using write_object_idempotent [of toy_codec Map.empty "''hello\<newline>''" "''blob''" _ _
      "[[''notes''] \<mapsto> File ''x'']"]
    store_ready_empty store_ready_one_file
  by blast

section \<open>The reference store\<close>

lemma init_files_empty: "init_files Map.empty = Inr fresh_repository"
  by (simp add: init_files_def create_directories_def write_file_def locate_def is_dir_def
      fresh_repository_def)

lemma file_status_master_fresh: "file_status fresh_repository ''.tinygit/refs/heads/master'' = Absent"
  by (simp add: file_status_def locate_def is_dir_def fresh_repository_def)

lemma resolve_ref_fresh: "resolve_ref fresh_repository = []"
  by (simp add: resolve_ref_def file_status_master_fresh)

lemma extract_word_line:
  "x \<noteq> [] \<Longrightarrow> list_all (\<lambda>c. \<not> isspace c) x \<Longrightarrow> extract_word (x @ ''\<newline>'') = x"
proof -
  assume ne: "x \<noteq> []" and ns: "list_all (\<lambda>c. \<not> isspace c) x"
  then obtain c cs where x: "x = c # cs"
    by (cases x) auto
  with ns have "\<not> isspace c"
    by simp
  then have "dropWhile isspace (x @ ''\<newline>'') = x @ ''\<newline>''"
    by (simp add: x)
  moreover have "takeWhile (\<lambda>c. \<not> isspace c) (x @ ''\<newline>'') = x"
    using ns by (simp add: takeWhile_append2 list_all_iff isspace_def)
  ultimately show ?thesis
    by (simp add: extract_word_def)
qed

lemma locate_master:
  assumes "fs [''.tinygit''] = Some Dir" and "fs [''.tinygit'', ''refs''] = Some Dir"
    and "fs [''.tinygit'', ''refs'', ''heads''] = Some Dir"
  shows "locate fs ''.tinygit/refs/heads/master'' = Some [''.tinygit'', ''refs'', ''heads'', ''master'']"
  using assms by (simp add: locate_def is_dir_def)

text \<open>Once \<^verbatim>\<open>init\<close> has made the directory of the branches, the reference that
  \<^verbatim>\<open>commit\<close> writes is the one that \<^verbatim>\<open>log\<close> reads.\<close>

lemma resolve_ref_update_ref:
  assumes "fs [''.tinygit''] = Some Dir" and "fs [''.tinygit'', ''refs''] = Some Dir"
    and "fs [''.tinygit'', ''refs'', ''heads''] = Some Dir"
    and "fs [''.tinygit'', ''refs'', ''heads'', ''master''] \<noteq> Some Dir"
    and "x \<noteq> []" and "list_all (\<lambda>c. \<not> isspace c) x"
  shows "resolve_ref (update_ref fs x) = x"
proof -
  let ?pos = "[''.tinygit'', ''refs'', ''heads'', ''master'']"
  let ?fs = "fs(?pos \<mapsto> File (x @ ''\<newline>''))"
  have u: "update_ref fs x = ?fs"
    using assms(4) by (simp add: update_ref_def write_file_def locate_master [OF assms(1-3)] is_dir_def)
  have "locate ?fs ''.tinygit/refs/heads/master'' = Some ?pos"
    by (rule locate_master) (simp_all add: assms)
  then have "file_status ?fs ''.tinygit/refs/heads/master'' = Regular (x @ ''\<newline>'')"
    by (simp add: file_status_def is_dir_def)
  then show ?thesis
    unfolding u by (simp add: resolve_ref_def extract_word_line [OF assms(5,6)])
qed

text \<open>Without that directory the stream of \<^verbatim>\<open>commit\<close> fails to open, and the reference
  is lost without a sign.\<close>

lemma update_ref_without_init: "update_ref Map.empty x = Map.empty"
  by (simp add: update_ref_def write_file_def locate_def is_dir_def)

lemma main_combined_log_before_commit:
  "main_combined z clock [''tinygit'', ''log''] fresh_repository =
     Some (Inr \<lparr>exit_code = 0, out = [], err = ''fatal: no commits yet\<newline>'',
                files = fresh_repository\<rparr>)"
  by (simp add: main_combined_def resolve_ref_fresh)

text \<open>
  C4, evaluated on \<^verbatim>\<open>tinygit.cpp\<close>: in the repository that \<^verbatim>\<open>init\<close> makes in an empty
  directory, where no file of the branch exists, the reference of \<^verbatim>\<open>master\<close>
  resolves to the empty word and \<^verbatim>\<open>log\<close> ends with the uncaught
  \<^verbatim>\<open>std::out_of_range\<close> of \<^verbatim>\<open>read_object\<close>; it signals nothing. (The combined program
  tests the extraction and prints \<^verbatim>\<open>fatal: no commits yet\<close>.)
\<close>

theorem log_before_first_commit_crashes:
  "main z clock [''tinygit'', ''init''] Map.empty =
     Inr \<lparr>exit_code = 0, out = ''Initialized empty tinygit repo\<newline>'', err = [],
          files = fresh_repository\<rparr> \<and>
   file_status fresh_repository ''.tinygit/refs/heads/master'' = Absent \<and>
   resolve_ref fresh_repository = [] \<and>
   main z clock [''tinygit'', ''log''] fresh_repository = Inl OutOfRange"
  by (simp add: main_log_eq resolve_ref_fresh read_object_short file_status_master_fresh)
    (simp add: main_def init_files_empty)

section \<open>Reading in \<^verbatim>\<open>part_000\<close>\<close>

lemma uncompress_retry_total:
  assumes "0 < n"
  shows "\<exists>r. uncompress_retry z compressed n = Some r"
proof -
  obtain outp fin where i: "inflate_all z compressed = (outp, fin)"
    by (cases "inflate_all z compressed")
  show ?thesis
  proof (cases "fin = Stream_End")
    case True
    with i assms show ?thesis
      by (simp add: uncompress_retry_complete)
  next
    case False
    with i assms show ?thesis
      by (simp add: uncompress_retry_failed)
  qed
qed

lemma uncompress_retry_nothing:
  "codec_ok z \<Longrightarrow> uncompress_retry z [] 0 = Some (Z_DATA_ERROR, 0, [])"
  by (simp add: uncompress_retry.simps [of z "[]" 0] uncompress_def codec_ok_def)

lemma read_object_p0_absent:
  "2 \<le> length sha \<Longrightarrow>
   file_status fs (''.tinygit/objects/'' @ take 2 sha @ ''/'' @ drop 2 sha) = Absent \<Longrightarrow>
   read_object_p0 z fs sha = Some (Inr [])"
  by (simp add: read_object_p0_def read_path_eq)

lemma read_object_p0_directory:
  "2 \<le> length sha \<Longrightarrow>
   file_status fs (''.tinygit/objects/'' @ take 2 sha @ ''/'' @ drop 2 sha) = Directory \<Longrightarrow>
   read_object_p0 z fs sha = Some (Inl IosFailure)"
  by (simp add: read_object_p0_def read_path_eq read_bytes_def)



lemma read_object_p0_stored:
  assumes "2 \<le> length sha"
    and "file_status fs (''.tinygit/objects/'' @ take 2 sha @ ''/'' @ drop 2 sha) = Regular compressed"
    and "inflate_all z compressed = (h @ CHR 0x00 # p, Stream_End)"
    and "CHR 0x00 \<notin> set h" and "length h + 1 < 2 ^ 64"
  shows "read_object_p0 z fs sha = Some (Inr p)"
proof -
  let ?store = "h @ CHR 0x00 # p"
  have "uncompress_retry z compressed (1024 * 1024) = Some (Z_OK, length ?store, ?store)"
    using assms(3) by (rule uncompress_retry_complete) simp
  moreover note find_char_header [OF assms(4,5), of p]
  ultimately show ?thesis
    using assms(1,2) by (simp add: read_object_p0_def read_path_eq read_bytes_def substr_def Let_def)
qed

lemma read_object_p0_returns:
  "read_object_p0 z fs sha \<noteq> None"
proof (cases "2 \<le> length sha")
  case False
  then show ?thesis
    by (simp add: read_object_p0_def read_path_short)
next
  case True
  let ?file = "''.tinygit/objects/'' @ take 2 sha @ ''/'' @ drop 2 sha"
  show ?thesis
  proof (cases "file_status fs ?file")
    case Absent
    with True show ?thesis
      by (simp add: read_object_p0_absent)
  next
    case Directory
    with True show ?thesis
      by (simp add: read_object_p0_directory)
  next
    case (Regular compressed)
    obtain r where "uncompress_retry z compressed (1024 * 1024) = Some r"
      using uncompress_retry_total [of "1024 * 1024" z compressed] by auto
    with True Regular show ?thesis
      by (cases r) (simp add: read_object_p0_def read_path_eq read_bytes_def Let_def)
  qed
qed

subsection \<open>The combined program\<close>

lemma read_object_combined_absent:
  "2 \<le> length sha \<Longrightarrow>
   file_status fs (''.tinygit/objects/'' @ take 2 sha @ ''/'' @ drop 2 sha) = Absent \<Longrightarrow>
   read_object_combined z fs sha = Some (Inr [])"
  by (simp add: read_object_combined_def read_path_eq)

lemma read_object_combined_directory:
  "2 \<le> length sha \<Longrightarrow>
   file_status fs (''.tinygit/objects/'' @ take 2 sha @ ''/'' @ drop 2 sha) = Directory \<Longrightarrow>
   read_object_combined z fs sha = Some (Inl IosFailure)"
  by (simp add: read_object_combined_def read_path_eq read_bytes_def)

lemma read_object_combined_stored:
  assumes "2 \<le> length sha"
    and "file_status fs (''.tinygit/objects/'' @ take 2 sha @ ''/'' @ drop 2 sha) = Regular compressed"
    and "compressed \<noteq> []"
    and "inflate_all z compressed = (h @ CHR 0x00 # p, Stream_End)"
    and "CHR 0x00 \<notin> set h" and "length h + 1 < 2 ^ 64"
  shows "read_object_combined z fs sha = Some (Inr p)"
proof -
  let ?store = "h @ CHR 0x00 # p"
  have "uncompress_retry z compressed (length compressed * 5) = Some (Z_OK, length ?store, ?store)"
    using assms(4) by (rule uncompress_retry_complete) (simp add: assms(3))
  moreover note find_char_header [OF assms(5,6), of p]
  ultimately show ?thesis
    using assms(1,2)
    by (simp add: read_object_combined_def read_path_eq read_bytes_def substr_def Let_def)
qed

lemma read_object_combined_returns:
  assumes "codec_ok z"
  shows "read_object_combined z fs sha \<noteq> None"
proof (cases "2 \<le> length sha")
  case False
  then show ?thesis
    by (simp add: read_object_combined_def read_path_short)
next
  case True
  let ?file = "''.tinygit/objects/'' @ take 2 sha @ ''/'' @ drop 2 sha"
  show ?thesis
  proof (cases "file_status fs ?file")
    case Absent
    with True show ?thesis
      by (simp add: read_object_combined_absent)
  next
    case Directory
    with True show ?thesis
      by (simp add: read_object_combined_directory)
  next
    case (Regular compressed)
    have "\<exists>r. uncompress_retry z compressed (length compressed * 5) = Some r"
    proof (cases "compressed = []")
      case True
      with assms show ?thesis
        by (simp add: uncompress_retry_nothing)
    next
      case False
      then show ?thesis
        by (intro uncompress_retry_total) simp
    qed
    then obtain r where "uncompress_retry z compressed (length compressed * 5) = Some r"
      by auto
    with True Regular show ?thesis
      by (cases r) (simp add: read_object_combined_def read_path_eq read_bytes_def Let_def)
  qed
qed

subsection \<open>Reading what was written\<close>

lemma store_encoding_p0_header:
  "store_encoding_p0 p k = (k @ '' '' @ to_string (length p)) @ CHR 0x00 # p"
  by (simp add: store_encoding_p0_def c_str_def)

lemma header_fits:
  assumes "CHR 0x00 \<notin> set k" and "length k < 2 ^ 32" and "length p < 2 ^ 63"
  shows "CHR 0x00 \<notin> set (k @ '' '' @ to_string (length p))"
    and "length (k @ '' '' @ to_string (length p)) + 1 < 2 ^ 64"
proof -
  show "CHR 0x00 \<notin> set (k @ '' '' @ to_string (length p))"
    using assms(1) to_string_no_nul by simp
  have "length (to_string (length p)) \<le> 19"
    using assms(3) by (rule length_to_string_size)
  with assms(2) have "length (k @ '' '' @ to_string (length p)) + 1 < 2 ^ 32 + 21"
    by simp
  also have "\<dots> < (2::nat) ^ 64"
    by simp
  finally show "length (k @ '' '' @ to_string (length p)) + 1 < 2 ^ 64" .
qed

lemma write_object_p0_ok:
  "codec_ok z \<Longrightarrow> store_ready fs (sha1_p0 (store_encoding_p0 p k)) \<Longrightarrow>
   write_object_p0 z fs p k =
     Inr (sha1_p0 (store_encoding_p0 p k),
          with_object fs (sha1_p0 (store_encoding_p0 p k)) (deflate_all z (store_encoding_p0 p k)))"
  by (simp add: write_object_p0_ready compress_bound)

lemma write_object_combined_ok:
  assumes "codec_ok z" and "store_ready fs (sha1_p0 (store_encoding_p0 p k))"
  shows "write_object_combined z fs p k =
     Inr (sha1_p0 (store_encoding_p0 p k),
          with_object fs (sha1_p0 (store_encoding_p0 p k)) (deflate_all z (store_encoding_p0 p k)))"
proof -
  let ?store = "store_encoding_p0 p k"
  let ?sha = "sha1_p0 ?store"
  let ?file = "''.tinygit/objects/'' @ take 2 ?sha @ ''/'' @ drop 2 ?sha"
  note n = plain_names_of_id [OF length_sha1_p0 is_hex_sha1_p0, of ?store]
  have s: "k @ c_str '' '' @ to_string (length p) @ [CHR 0x00] @ p = ?store"
    by (simp add: store_encoding_p0_def)
  have p: "read_path ?sha = Inr ?file"
    by (simp add: read_path_eq length_sha1_p0)
  have pp: "parent_path ?file = ''.tinygit/objects/'' @ take 2 ?sha"
    using n by (intro parent_path_object) (simp_all add: plain_name_def)
  have ok: "(Z_OK \<noteq> Z_OK) = False"
    by simp
  have "write_object_combined z fs p k =
          (case create_directories fs (''.tinygit/objects/'' @ take 2 ?sha) of
             Inl e \<Rightarrow> Inl e
           | Inr fs1 \<Rightarrow> Inr (?sha, write_file fs1 ?file (take (length (deflate_all z ?store)) (deflate_all z ?store))))"
    unfolding write_object_combined_def Let_def s sha1_combined_eq compress_bound [OF assms(1)]
      prod.case ok if_False p sum.case pp ..
  also have "\<dots> = Inr (?sha, with_object fs ?sha (take (length (deflate_all z ?store)) (deflate_all z ?store)))"
    unfolding store_at [OF length_sha1_p0 is_hex_sha1_p0] using assms(2)
    by (simp add: store_ready_def)
  finally show ?thesis
    by simp
qed

lemma read_object_p0_written:
  assumes ok: "codec_ok z" and k: "CHR 0x00 \<notin> set k" "length k < 2 ^ 32" and p: "length p < 2 ^ 63"
  shows "read_object_p0 z (with_object fs (sha1_p0 (store_encoding_p0 p k))
                             (deflate_all z (store_encoding_p0 p k)))
           (sha1_p0 (store_encoding_p0 p k)) = Some (Inr p)"
proof -
  let ?h = "k @ '' '' @ to_string (length p)"
  have "inflate_all z (deflate_all z (store_encoding_p0 p k)) = (?h @ CHR 0x00 # p, Stream_End)"
    using ok by (simp add: codec_ok_def store_encoding_p0_header)
  then show ?thesis
    by (intro read_object_p0_stored [where h = ?h and compressed = "deflate_all z (store_encoding_p0 p k)"]
        header_fits [OF k p] file_status_with_object [OF length_sha1_p0 is_hex_sha1_p0])
      (simp_all add: length_sha1_p0)
qed

lemma read_object_combined_written:
  assumes ok: "codec_ok z" and k: "CHR 0x00 \<notin> set k" "length k < 2 ^ 32" and p: "length p < 2 ^ 63"
  shows "read_object_combined z (with_object fs (sha1_p0 (store_encoding_p0 p k))
                                   (deflate_all z (store_encoding_p0 p k)))
           (sha1_p0 (store_encoding_p0 p k)) = Some (Inr p)"
proof -
  let ?h = "k @ '' '' @ to_string (length p)"
  have "inflate_all z (deflate_all z (store_encoding_p0 p k)) = (?h @ CHR 0x00 # p, Stream_End)"
    using ok by (simp add: codec_ok_def store_encoding_p0_header)
  then show ?thesis
    by (intro read_object_combined_stored [where h = ?h and compressed = "deflate_all z (store_encoding_p0 p k)"]
        header_fits [OF k p] file_status_with_object [OF length_sha1_p0 is_hex_sha1_p0]
        deflate_all_nonempty [OF ok])
      (simp_all add: length_sha1_p0)
qed

section \<open>The encoding and the round trip of \<^verbatim>\<open>tinygit.cpp\<close>\<close>

lemma store_encoding_no_nul_appended:
  "store_encoding data type = type @ '' '' @ to_string (length data) @ data"
  by (simp add: store_encoding_def c_str_def)

lemma store_encoding_empty: "store_encoding [] ''blob'' = ''blob 0''"
  by (simp add: store_encoding_def c_str_def to_string.simps digit_char_def)

lemma read_object_written:
  assumes "codec_ok z" and "length store < 2 ^ 32" and "length (deflate_all z store) < 2 ^ 32"
    and "length sha = 40" and "list_all is_hex sha"
  shows "read_object z (with_object fs sha (deflate_all z (take (length store mod 2 ^ 32) store))) sha =
           substr store (unat (find_char store (CHR 0x00) + 1))"
proof -
  let ?file = "''.tinygit/objects/'' @ take 2 sha @ ''/'' @ drop 2 sha"
  from assms(2) have t: "take (length store mod 2 ^ 32) store = store"
    by simp
  have "file_status (with_object fs sha (deflate_all z store)) ?file = Regular (deflate_all z store)"
    by (rule file_status_with_object [OF assms(4,5)])
  then have "read_bytes (with_object fs sha (deflate_all z store)) ?file = Inr (deflate_all z store)"
    by (simp add: read_bytes_def)
  moreover have "take (length (deflate_all z store) mod 2 ^ 32) (deflate_all z store) = deflate_all z store"
    using assms(3) by simp
  moreover have "inflate_all z (deflate_all z store) = (store, Stream_End)"
    using assms(1) by (simp add: codec_ok_def)
  moreover have "2 \<le> length sha"
    using assms(4) by simp
  ultimately show ?thesis
    unfolding t by (simp add: read_object_eq Let_def)
qed

lemma small_stream:
  assumes "codec_ok z" and "length x \<le> 1000"
  shows "length (deflate_all z x) < 2 ^ 32"
proof -
  from assms(1) have "length (deflate_all z x) \<le> compressBound (length x)"
    by (simp add: codec_ok_def)
  also have "\<dots> \<le> length x + length x + length x + length x + 13"
    unfolding compressBound_def by (intro add_mono) (simp_all add: drop_bit_eq_div)
  also have "\<dots> < 2 ^ 32"
    using assms(2) by simp
  finally show ?thesis .
qed

text \<open>
  C1, evaluated on \<^verbatim>\<open>tinygit.cpp\<close>: after \<^verbatim>\<open>write_object("hello\n", "blob")\<close> has
  stored the object, the call \<^verbatim>\<open>read_object\<close> of the returned identifier returns
  \<^verbatim>\<open>"blob 6hello\n"\<close>, and after writing the empty payload it returns \<^verbatim>\<open>"blob 0"\<close>: the
  header is not cut off, since \<^verbatim>\<open>header + "\0"\<close> appends no NUL byte and \<^verbatim>\<open>find\<close>
  returns \<^verbatim>\<open>npos\<close>.
\<close>

theorem round_trip_keeps_header:
  assumes "codec_ok z"
  shows "(store_ready fs (sha1 ''blob 6hello\<newline>'') \<longrightarrow>
           (\<exists>sha fs'. write_object z fs ''hello\<newline>'' ''blob'' = Inr (sha, fs') \<and>
              read_object z fs' sha = Inr ''blob 6hello\<newline>'')) \<and>
         (store_ready fs (sha1 ''blob 0'') \<longrightarrow>
           (\<exists>sha fs'. write_object z fs [] ''blob'' = Inr (sha, fs') \<and>
              read_object z fs' sha = Inr ''blob 0''))"
proof (intro conjI impI)
  let ?store = "''blob 6hello\<newline>''"
  assume "store_ready fs (sha1 ?store)"
  then have w: "write_object z fs ''hello\<newline>'' ''blob'' =
      Inr (sha1 ?store, with_object fs (sha1 ?store) (deflate_all z (take (length ?store mod 2 ^ 32) ?store)))"
    using write_object_ready [of fs "''hello\<newline>''" "''blob''" z] unfolding store_encoding_hello by simp
  have "read_object z (with_object fs (sha1 ?store) (deflate_all z (take (length ?store mod 2 ^ 32) ?store)))
          (sha1 ?store) = substr ?store (unat (find_char ?store (CHR 0x00) + 1))"
    by (rule read_object_written [OF assms _ small_stream [OF assms] length_sha1 is_hex_sha1]) simp_all
  also have "\<dots> = Inr ?store"
    by (simp add: find_char_def npos_def substr_def)
  finally show "\<exists>sha fs'. write_object z fs ''hello\<newline>'' ''blob'' = Inr (sha, fs') \<and>
            read_object z fs' sha = Inr ''blob 6hello\<newline>''"
    using w by blast
next
  let ?store = "''blob 0''"
  assume "store_ready fs (sha1 ?store)"
  then have w: "write_object z fs [] ''blob'' =
      Inr (sha1 ?store, with_object fs (sha1 ?store) (deflate_all z (take (length ?store mod 2 ^ 32) ?store)))"
    using write_object_ready [of fs "[]" "''blob''" z] unfolding store_encoding_empty by simp
  have "read_object z (with_object fs (sha1 ?store) (deflate_all z (take (length ?store mod 2 ^ 32) ?store)))
          (sha1 ?store) = substr ?store (unat (find_char ?store (CHR 0x00) + 1))"
    by (rule read_object_written [OF assms _ small_stream [OF assms] length_sha1 is_hex_sha1]) simp_all
  also have "\<dots> = Inr ?store"
    by (simp add: find_char_def npos_def substr_def)
  finally show "\<exists>sha fs'. write_object z fs [] ''blob'' = Inr (sha, fs') \<and>
            read_object z fs' sha = Inr ''blob 0''"
    using w by blast
qed

theorem round_trip_keeps_header_witness:
  "codec_ok toy_codec \<and>
   store_ready Map.empty (sha1 ''blob 6hello\<newline>'') \<and>
   (\<exists>sha fs'. write_object toy_codec Map.empty ''hello\<newline>'' ''blob'' = Inr (sha, fs') \<and>
            read_object toy_codec fs' sha = Inr ''blob 6hello\<newline>'') \<and>
   store_ready Map.empty (sha1 ''blob 0'') \<and>
   (\<exists>sha fs'. write_object toy_codec Map.empty [] ''blob'' = Inr (sha, fs') \<and>
            read_object toy_codec fs' sha = Inr ''blob 0'')"
  using round_trip_keeps_header [OF codec_ok_toy, of Map.empty] codec_ok_toy store_ready_empty
  by simp

text \<open>
  C2, evaluated on \<^verbatim>\<open>tinygit.cpp\<close>: the bytes that \<^verbatim>\<open>write_object\<close> hashes and
  compresses are the kind, a space, the decimal length and the payload, with no NUL
  byte between length and payload; for the payload \<^verbatim>\<open>"hello\n"\<close> and the kind
  \<^verbatim>\<open>blob\<close> they are \<^verbatim>\<open>"blob 6hello\n"\<close>; every identifier that \<^verbatim>\<open>write_object\<close> returns
  is the hash of these bytes, and where the object can be stored the file of the
  identifier holds their compression.
\<close>

theorem encoding_has_no_nul:
  "store_encoding data type = type @ '' '' @ to_string (length data) @ data \<and>
   store_encoding ''hello\<newline>'' ''blob'' = ''blob 6hello\<newline>'' \<and>
   store_encoding ''hello\<newline>'' ''blob'' \<noteq> ''blob 6'' @ [CHR 0x00] @ ''hello\<newline>'' \<and>
   (write_object z fs data type = Inr (sha, fs') \<longrightarrow>
      sha = sha1 (type @ '' '' @ to_string (length data) @ data)) \<and>
   (store_ready fs (sha1 ''blob 6hello\<newline>'') \<longrightarrow>
      (\<exists>fs1. write_object z fs ''hello\<newline>'' ''blob'' = Inr (sha1 ''blob 6hello\<newline>'', fs1) \<and>
         file_status fs1 (''.tinygit/objects/'' @ take 2 (sha1 ''blob 6hello\<newline>'') @ ''/''
                            @ drop 2 (sha1 ''blob 6hello\<newline>''))
           = Regular (deflate_all z ''blob 6hello\<newline>'')))"
proof (intro conjI impI)
  show "store_encoding data type = type @ '' '' @ to_string (length data) @ data"
    by (rule store_encoding_no_nul_appended)
  show "store_encoding ''hello\<newline>'' ''blob'' = ''blob 6hello\<newline>''"
    by (rule store_encoding_hello)
  show "store_encoding ''hello\<newline>'' ''blob'' \<noteq> ''blob 6'' @ [CHR 0x00] @ ''hello\<newline>''"
    unfolding store_encoding_hello by simp
next
  assume "write_object z fs data type = Inr (sha, fs')"
  then show "sha = sha1 (type @ '' '' @ to_string (length data) @ data)"
    unfolding store_encoding_no_nul_appended [symmetric] by (rule write_object_id)
next
  let ?store = "''blob 6hello\<newline>''"
  assume "store_ready fs (sha1 ?store)"
  then have "write_object z fs ''hello\<newline>'' ''blob'' =
      Inr (sha1 ?store, with_object fs (sha1 ?store) (deflate_all z ?store))"
    using write_object_ready [of fs "''hello\<newline>''" "''blob''" z] unfolding store_encoding_hello by simp
  moreover have "file_status (with_object fs (sha1 ?store) (deflate_all z ?store))
                  (''.tinygit/objects/'' @ take 2 (sha1 ?store) @ ''/'' @ drop 2 (sha1 ?store))
                 = Regular (deflate_all z ?store)"
    by (rule file_status_with_object [OF length_sha1 is_hex_sha1])
  ultimately show "\<exists>fs1. write_object z fs ''hello\<newline>'' ''blob'' = Inr (sha1 ?store, fs1) \<and>
         file_status fs1 (''.tinygit/objects/'' @ take 2 (sha1 ?store) @ ''/'' @ drop 2 (sha1 ?store))
           = Regular (deflate_all z ?store)"
    by blast
qed

theorem encoding_has_no_nul_witness:
  "store_ready Map.empty (sha1 ''blob 6hello\<newline>'') \<and>
   write_object toy_codec Map.empty ''hello\<newline>'' ''blob'' =
     Inr (sha1 ''blob 6hello\<newline>'',
          with_object Map.empty (sha1 ''blob 6hello\<newline>'') (CHR 0x78 # ''blob 6hello\<newline>'')) \<and>
   (\<exists>fs1. write_object toy_codec Map.empty ''hello\<newline>'' ''blob'' = Inr (sha1 ''blob 6hello\<newline>'', fs1) \<and>
      file_status fs1 (''.tinygit/objects/'' @ take 2 (sha1 ''blob 6hello\<newline>'') @ ''/''
                         @ drop 2 (sha1 ''blob 6hello\<newline>''))
        = Regular (CHR 0x78 # ''blob 6hello\<newline>''))"
proof -
  have w: "write_object toy_codec Map.empty ''hello\<newline>'' ''blob'' =
     Inr (sha1 ''blob 6hello\<newline>'',
          with_object Map.empty (sha1 ''blob 6hello\<newline>'') (CHR 0x78 # ''blob 6hello\<newline>''))"
    by (simp add: write_object_ready store_ready_empty store_encoding_hello toy_codec_def)
  have d: "deflate_all toy_codec ''blob 6hello\<newline>'' = CHR 0x78 # ''blob 6hello\<newline>''"
    by (simp add: toy_codec_def)
  show ?thesis
    using encoding_has_no_nul [of "''hello\<newline>''" "''blob''" toy_codec Map.empty "sha1 ''blob 6hello\<newline>''"
        "with_object Map.empty (sha1 ''blob 6hello\<newline>'') (CHR 0x78 # ''blob 6hello\<newline>'')"]
      w store_ready_empty [of "sha1 ''blob 6hello\<newline>''"]
    unfolding d by blast
qed

lemma encoding_p0_has_nul:
  "store_encoding_p0 data type = type @ '' '' @ to_string (length data) @ [CHR 0x00] @ data \<and>
   store_encoding_p0 ''hello\<newline>'' ''blob'' = ''blob 6'' @ [CHR 0x00] @ ''hello\<newline>'' \<and>
   (write_object_p0 z fs ''hello\<newline>'' ''blob'' = Inr (sha, fs') \<longrightarrow>
      sha = sha1_p0 (''blob 6'' @ [CHR 0x00] @ ''hello\<newline>''))"
proof -
  have h: "store_encoding_p0 ''hello\<newline>'' ''blob'' = ''blob 6'' @ [CHR 0x00] @ ''hello\<newline>''"
    by (simp add: store_encoding_p0_def c_str_def to_string.simps digit_char_def)
  moreover have "store_encoding_p0 data type = type @ '' '' @ to_string (length data) @ [CHR 0x00] @ data"
    by (simp add: store_encoding_p0_def c_str_def)
  moreover have "write_object_p0 z fs ''hello\<newline>'' ''blob'' = Inr (sha, fs') \<longrightarrow>
      sha = sha1_p0 (''blob 6'' @ [CHR 0x00] @ ''hello\<newline>'')"
    unfolding h [symmetric] by (auto dest: write_object_p0_id)
  ultimately show ?thesis
    by simp
qed

section \<open>Failures of reading\<close>







section \<open>Growth of the decompression buffer\<close>

text \<open>
  C5: for every object that \<^verbatim>\<open>write_object\<close> of \<^verbatim>\<open>part_000\<close> or of the combined
  program has stored, whatever its size, \<^verbatim>\<open>read_object\<close> of the same program returns
  from its loop, which doubles the buffer while \<^verbatim>\<open>uncompress\<close> returns
  \<open>Z_BUF_ERROR\<close>, and returns the whole payload: the loop started with a buffer of
  1 MiB, and the loop started with five times the compressed size, end with \<open>Z_OK\<close>,
  the length of the encoding and the whole encoding, never a truncated one. On every
  file system and identifier the two functions return.
\<close>

theorem decompression_grows_to_full_size:
  assumes "codec_ok z" and "CHR 0x00 \<notin> set k" and "length k < 2 ^ 32" and "length p < 2 ^ 63"
    and "store_ready fs (sha1_p0 (store_encoding_p0 p k))"
  shows "(\<exists>sha fs' file compressed.
            write_object_p0 z fs p k = Inr (sha, fs') \<and> read_path sha = Inr file \<and>
            file_status fs' file = Regular compressed \<and>
            uncompress_retry z compressed (1024 * 1024) =
              Some (Z_OK, length (store_encoding_p0 p k), store_encoding_p0 p k) \<and>
            read_object_p0 z fs' sha = Some (Inr p)) \<and>
         (\<exists>sha fs' file compressed.
            write_object_combined z fs p k = Inr (sha, fs') \<and> read_path sha = Inr file \<and>
            file_status fs' file = Regular compressed \<and>
            uncompress_retry z compressed (length compressed * 5) =
              Some (Z_OK, length (store_encoding_p0 p k), store_encoding_p0 p k) \<and>
            read_object_combined z fs' sha = Some (Inr p)) \<and>
         read_object_p0 z fs0 sha0 \<noteq> None \<and> read_object_combined z fs0 sha0 \<noteq> None"
proof (intro conjI)
  let ?store = "store_encoding_p0 p k"
  let ?sha = "sha1_p0 ?store"
  let ?file = "''.tinygit/objects/'' @ take 2 ?sha @ ''/'' @ drop 2 ?sha"
  let ?fs' = "with_object fs ?sha (deflate_all z ?store)"
  have i: "inflate_all z (deflate_all z ?store) = (?store, Stream_End)"
    using assms(1) by (simp add: codec_ok_def)
  have path: "read_path ?sha = Inr ?file"
    by (simp add: read_path_eq length_sha1_p0)
  have stored: "file_status ?fs' ?file = Regular (deflate_all z ?store)"
    by (rule file_status_with_object [OF length_sha1_p0 is_hex_sha1_p0])
  have "write_object_p0 z fs p k = Inr (?sha, ?fs')"
    using assms(1,5) by (rule write_object_p0_ok)
  moreover have "uncompress_retry z (deflate_all z ?store) (1024 * 1024) = Some (Z_OK, length ?store, ?store)"
    using i by (rule uncompress_retry_complete) simp
  moreover have "read_object_p0 z ?fs' ?sha = Some (Inr p)"
    using assms(1-4) by (rule read_object_p0_written)
  ultimately show "\<exists>sha fs' file compressed.
            write_object_p0 z fs p k = Inr (sha, fs') \<and> read_path sha = Inr file \<and>
            file_status fs' file = Regular compressed \<and>
            uncompress_retry z compressed (1024 * 1024) = Some (Z_OK, length ?store, ?store) \<and>
            read_object_p0 z fs' sha = Some (Inr p)"
    using path stored by blast
  have "write_object_combined z fs p k = Inr (?sha, ?fs')"
    using assms(1,5) by (rule write_object_combined_ok)
  moreover have "uncompress_retry z (deflate_all z ?store) (length (deflate_all z ?store) * 5)
                   = Some (Z_OK, length ?store, ?store)"
    using i by (rule uncompress_retry_complete) (simp add: deflate_all_nonempty [OF assms(1)])
  moreover have "read_object_combined z ?fs' ?sha = Some (Inr p)"
    using assms(1-4) by (rule read_object_combined_written)
  ultimately show "\<exists>sha fs' file compressed.
            write_object_combined z fs p k = Inr (sha, fs') \<and> read_path sha = Inr file \<and>
            file_status fs' file = Regular compressed \<and>
            uncompress_retry z compressed (length compressed * 5) = Some (Z_OK, length ?store, ?store) \<and>
            read_object_combined z fs' sha = Some (Inr p)"
    using path stored by blast
  show "read_object_p0 z fs0 sha0 \<noteq> None"
    by (rule read_object_p0_returns)
  show "read_object_combined z fs0 sha0 \<noteq> None"
    using assms(1) by (rule read_object_combined_returns)
qed

lemma short_codec_long:
  "deflate_all (short_codec long) long = [CHR 0x79]"
  by (simp add: short_codec_def)

theorem decompression_grows_to_full_size_witness:
  "codec_ok (short_codec (store_encoding_p0 (replicate 2000000 (CHR ''a'')) ''blob'')) \<and>
   CHR 0x00 \<notin> set ''blob'' \<and> length ''blob'' < 2 ^ 32 \<and>
   length (replicate 2000000 (CHR ''a'')) < 2 ^ 63 \<and>
   store_ready Map.empty (sha1_p0 (store_encoding_p0 (replicate 2000000 (CHR ''a'')) ''blob'')) \<and>
   1024 * 1024 < length (store_encoding_p0 (replicate 2000000 (CHR ''a'')) ''blob'') \<and>
   length [CHR 0x79] * 5 < length (store_encoding_p0 (replicate 2000000 (CHR ''a'')) ''blob'') \<and>
   (\<exists>sha fs' file.
      write_object_p0 (short_codec (store_encoding_p0 (replicate 2000000 (CHR ''a'')) ''blob''))
        Map.empty (replicate 2000000 (CHR ''a'')) ''blob'' = Inr (sha, fs') \<and>
      read_path sha = Inr file \<and> file_status fs' file = Regular [CHR 0x79] \<and>
      uncompress_retry (short_codec (store_encoding_p0 (replicate 2000000 (CHR ''a'')) ''blob''))
        [CHR 0x79] (1024 * 1024) =
        Some (Z_OK, length (store_encoding_p0 (replicate 2000000 (CHR ''a'')) ''blob''),
              store_encoding_p0 (replicate 2000000 (CHR ''a'')) ''blob'') \<and>
      read_object_p0 (short_codec (store_encoding_p0 (replicate 2000000 (CHR ''a'')) ''blob''))
        fs' sha = Some (Inr (replicate 2000000 (CHR ''a'')))) \<and>
   (\<exists>sha fs' file.
      write_object_combined (short_codec (store_encoding_p0 (replicate 2000000 (CHR ''a'')) ''blob''))
        Map.empty (replicate 2000000 (CHR ''a'')) ''blob'' = Inr (sha, fs') \<and>
      read_path sha = Inr file \<and> file_status fs' file = Regular [CHR 0x79] \<and>
      uncompress_retry (short_codec (store_encoding_p0 (replicate 2000000 (CHR ''a'')) ''blob''))
        [CHR 0x79] (length [CHR 0x79] * 5) =
        Some (Z_OK, length (store_encoding_p0 (replicate 2000000 (CHR ''a'')) ''blob''),
              store_encoding_p0 (replicate 2000000 (CHR ''a'')) ''blob'') \<and>
      read_object_combined (short_codec (store_encoding_p0 (replicate 2000000 (CHR ''a'')) ''blob''))
        fs' sha = Some (Inr (replicate 2000000 (CHR ''a''))))"
proof -
  define p where "p = replicate 2000000 (CHR ''a'')"
  define z where "z = short_codec (store_encoding_p0 p ''blob'')"
  have ok: "codec_ok z"
    unfolding z_def by (rule codec_ok_short)
  have k: "CHR 0x00 \<notin> set ''blob''" "length ''blob'' < 2 ^ 32"
    by simp_all
  have lp: "length p < 2 ^ 63"
    by (simp add: p_def)
  have big: "1024 * 1024 < length (store_encoding_p0 p ''blob'')"
    "length [CHR 0x79] * 5 < length (store_encoding_p0 p ''blob'')"
    by (simp_all add: store_encoding_p0_def p_def)
  have d: "deflate_all z (store_encoding_p0 p ''blob'') = [CHR 0x79]"
    unfolding z_def by (rule short_codec_long)
  note inst = decompression_grows_to_full_size [OF ok k lp store_ready_empty]
  from inst [THEN conjunct1] obtain sha fs' path compressed where
    w: "write_object_p0 z Map.empty p ''blob'' = Inr (sha, fs')" "read_path sha = Inr path"
      "file_status fs' path = Regular compressed"
      "uncompress_retry z compressed (1024 * 1024) =
         Some (Z_OK, length (store_encoding_p0 p ''blob''), store_encoding_p0 p ''blob'')"
      "read_object_p0 z fs' sha = Some (Inr p)"
    by blast
  have "sha = sha1_p0 (store_encoding_p0 p ''blob'')"
    using w(1) by (rule write_object_p0_id)
  with w(1) have "fs' = with_object Map.empty sha [CHR 0x79]"
    by (simp add: write_object_p0_ok [OF ok store_ready_empty] d)
  with w(2,3) have "compressed = [CHR 0x79]"
    using file_status_with_object [OF length_sha1_p0 is_hex_sha1_p0, of Map.empty "store_encoding_p0 p ''blob''" "[CHR 0x79]"]
    by (simp add: \<open>sha = sha1_p0 (store_encoding_p0 p ''blob'')\<close> read_path_eq length_sha1_p0)
  with w have first: "\<exists>sha fs' file.
      write_object_p0 z Map.empty p ''blob'' = Inr (sha, fs') \<and>
      read_path sha = Inr file \<and> file_status fs' file = Regular [CHR 0x79] \<and>
      uncompress_retry z [CHR 0x79] (1024 * 1024) =
        Some (Z_OK, length (store_encoding_p0 p ''blob''), store_encoding_p0 p ''blob'') \<and>
      read_object_p0 z fs' sha = Some (Inr p)"
    by blast
  from inst [THEN conjunct2, THEN conjunct1] obtain sha fs' path compressed where
    w: "write_object_combined z Map.empty p ''blob'' = Inr (sha, fs')" "read_path sha = Inr path"
      "file_status fs' path = Regular compressed"
      "uncompress_retry z compressed (length compressed * 5) =
         Some (Z_OK, length (store_encoding_p0 p ''blob''), store_encoding_p0 p ''blob'')"
      "read_object_combined z fs' sha = Some (Inr p)"
    by blast
  from w(1) have "sha = sha1_p0 (store_encoding_p0 p ''blob'') \<and> fs' = with_object Map.empty sha [CHR 0x79]"
    by (auto simp: write_object_combined_ok [OF ok store_ready_empty] d)
  with w(2,3) have "compressed = [CHR 0x79]"
    using file_status_with_object [OF length_sha1_p0 is_hex_sha1_p0, of Map.empty "store_encoding_p0 p ''blob''" "[CHR 0x79]"]
    by (simp add: read_path_eq length_sha1_p0)
  with w have second: "\<exists>sha fs' file.
      write_object_combined z Map.empty p ''blob'' = Inr (sha, fs') \<and>
      read_path sha = Inr file \<and> file_status fs' file = Regular [CHR 0x79] \<and>
      uncompress_retry z [CHR 0x79] (length [CHR 0x79] * 5) =
        Some (Z_OK, length (store_encoding_p0 p ''blob''), store_encoding_p0 p ''blob'') \<and>
      read_object_combined z fs' sha = Some (Inr p)"
    by blast
  show ?thesis
    using ok k lp store_ready_empty [of "sha1_p0 (store_encoding_p0 p ''blob'')"] big first second
    unfolding z_def p_def by (intro conjI)
qed

section \<open>The commit payload\<close>

lemma split_lines_line:
  "CHR 0x0A \<notin> set a \<Longrightarrow> split_lines (a @ CHR 0x0A # rest) = a # split_lines rest"
  by (induction a) auto

lemma split_lines_last: "CHR 0x0A \<notin> set a \<Longrightarrow> split_lines a = [a]"
  by (induction a) auto

lemma no_newline: "length (filter (\<lambda>c. c = CHR 0x0A) s) = 0 \<Longrightarrow> CHR 0x0A \<notin> set s"
  by (induction s) (auto split: if_splits)

lemma commit_payload_example:
  "commit_payload (100, 101) ''first'' =
     ''tree dummy_sha\<newline>author me <me@example.com> 100 +0000\<newline>committer me <me@example.com> 101 +0000\<newline>\<newline>first\<newline>''"
  by (simp add: commit_payload_def show_long_def to_string.simps digit_char_def)

lemma commit_payload_combined_format:
  "commit_payload_combined t message =
     build_commit message ''dummy_tree_sha_placeholder'' ''Your Name <you@example.com>''
       (show_long (sint t)) ''+0000''"
  by (simp add: commit_payload_combined_def build_commit_def)

lemma commit_payload_same_time:
  "commit_payload (t, t) message =
     build_commit message ''dummy_sha'' ''me <me@example.com>'' (show_long (sint t)) ''+0000''"
  by (simp add: commit_payload_def build_commit_def)

lemma two_times_no_format:
  "''tree dummy_sha\<newline>author me <me@example.com> 100 +0000\<newline>committer me <me@example.com> 101 +0000\<newline>\<newline>first\<newline>''
     \<noteq> build_commit ''first'' tree_id identity unix_time tz"
proof
  let ?P = "''tree dummy_sha\<newline>author me <me@example.com> 100 +0000\<newline>committer me <me@example.com> 101 +0000\<newline>\<newline>first\<newline>''"
  let ?nl = "\<lambda>s. length (filter (\<lambda>c. c = CHR 0x0A) s)"
  define X where "X = identity @ '' '' @ unix_time @ '' '' @ tz"
  assume "?P = build_commit ''first'' tree_id identity unix_time tz"
  then have eq: "?P = (''tree '' @ tree_id) @ CHR 0x0A # (''author '' @ X) @ CHR 0x0A
                        # (''committer '' @ X) @ CHR 0x0A # ''\<newline>first\<newline>''"
    by (simp add: build_commit_def X_def)
  have "?nl ?P = 5"
    by simp
  moreover have "?nl ((''tree '' @ tree_id) @ CHR 0x0A # (''author '' @ X) @ CHR 0x0A
                        # (''committer '' @ X) @ CHR 0x0A # ''\<newline>first\<newline>'')
                 = 5 + ?nl tree_id + 2 * ?nl X"
    by simp
  ultimately have "?nl tree_id = 0" "?nl X = 0"
    using eq by simp_all
  then have n: "CHR 0x0A \<notin> set (''tree '' @ tree_id)" "CHR 0x0A \<notin> set (''author '' @ X)"
    "CHR 0x0A \<notin> set (''committer '' @ X)"
    by (simp_all add: no_newline)
  have "split_lines ((''tree '' @ tree_id) @ CHR 0x0A # (''author '' @ X) @ CHR 0x0A
                        # (''committer '' @ X) @ CHR 0x0A # ''\<newline>first\<newline>'')
          = (''tree '' @ tree_id) # (''author '' @ X) # (''committer '' @ X) # split_lines ''\<newline>first\<newline>''"
    by (simp only: split_lines_line [OF n(1)] split_lines_line [OF n(2)] split_lines_line [OF n(3)])
  moreover have "split_lines ?P =
      ''tree dummy_sha'' # ''author me <me@example.com> 100 +0000''
        # ''committer me <me@example.com> 101 +0000'' # split_lines ''\<newline>first\<newline>''"
    by simp
  ultimately have "''author '' @ X = ''author me <me@example.com> 100 +0000''"
    "''committer '' @ X = ''committer me <me@example.com> 101 +0000''"
    using eq by simp_all
  then show False
    by simp
qed

text \<open>
  C9, evaluated on \<^verbatim>\<open>tinygit.cpp\<close>, whose commit command the first program of
  \<^verbatim>\<open>part_000\<close> repeats: it reads the clock once for the author line and once more for
  the committer line. When the clock returns 100 and then 101 the payload carries both
  times, and no tree, identity, time and zone make it the concatenation of the
  specification, which has one time in both lines. When both readings return the same
  time the payload is that concatenation, as is, for every time and message, the
  payload of the combined program, which reads the clock once.
\<close>

theorem commit_payload_reads_clock_twice:
  "commit_payload (100, 101) ''first'' =
     ''tree dummy_sha\<newline>author me <me@example.com> 100 +0000\<newline>committer me <me@example.com> 101 +0000\<newline>\<newline>first\<newline>'' \<and>
   commit_payload (100, 101) ''first'' \<noteq> build_commit ''first'' tree_id identity unix_time tz \<and>
   commit_payload (t, t) message =
     build_commit message ''dummy_sha'' ''me <me@example.com>'' (show_long (sint t)) ''+0000'' \<and>
   commit_payload_combined t message =
     build_commit message ''dummy_tree_sha_placeholder'' ''Your Name <you@example.com>''
       (show_long (sint t)) ''+0000''"
  unfolding commit_payload_example
  using two_times_no_format [of tree_id identity unix_time tz] commit_payload_same_time [of t message]
    commit_payload_combined_format [of t message]
  by (intro conjI refl)

section \<open>The log after a commit in \<^verbatim>\<open>part_000\<close>\<close>

lemma to_string_no_newline: "CHR 0x0A \<notin> set (to_string n)"
  using to_string_decimal [of n] by auto

lemma show_long_no_newline: "CHR 0x0A \<notin> set (show_long i)"
  by (simp add: show_long_def to_string_no_newline)

lemma length_show_long: "length (show_long (sint (t :: u64))) \<le> 20"
proof -
  have "- (2 ^ 63) \<le> sint t" "sint t < 2 ^ 63"
    using sint_ge [of t] sint_lt [of t] by simp_all
  then have "nat (sint t) < 2 ^ 63 + 1" "nat (- sint t) < 2 ^ 63 + 1"
    by (simp_all add: nat_less_iff)
  moreover have "(2::nat) ^ 63 + 1 < 10 ^ 19"
    by simp
  ultimately have "nat (sint t) < 10 ^ 19" "nat (- sint t) < 10 ^ 19"
    by linarith+
  then have "length (to_string (nat (sint t))) \<le> 19" "length (to_string (nat (- sint t))) \<le> 19"
    by (simp_all add: length_to_string)
  then show ?thesis
    by (simp add: show_long_def)
qed

lemma is_hex_not_space: "is_hex c \<Longrightarrow> \<not> isspace c"
  by (auto simp: is_hex_def isspace_def)

lemma commit_payload_lines:
  "split_lines (commit_payload (t1, t2) message @ ''\<newline>'') =
     ''tree dummy_sha''
     # (''author me <me@example.com> '' @ show_long (sint t1) @ '' +0000'')
     # (''committer me <me@example.com> '' @ show_long (sint t2) @ '' +0000'')
     # [] # split_lines (message @ ''\<newline>\<newline>'')"
proof -
  define T where "T = ''tree dummy_sha''"
  define A where "A = ''author me <me@example.com> '' @ show_long (sint t1) @ '' +0000''"
  define C where "C = ''committer me <me@example.com> '' @ show_long (sint t2) @ '' +0000''"
  define E where "E = ([] :: string)"
  have t: "CHR 0x0A \<notin> set T"
    by (simp add: T_def)
  have a: "CHR 0x0A \<notin> set A"
    using show_long_no_newline [of "sint t1"] by (simp add: A_def)
  have c: "CHR 0x0A \<notin> set C"
    using show_long_no_newline [of "sint t2"] by (simp add: C_def)
  have e: "CHR 0x0A \<notin> set E"
    by (simp add: E_def)
  have p: "commit_payload (t1, t2) message @ ''\<newline>'' =
      T @ CHR 0x0A # A @ CHR 0x0A # C @ CHR 0x0A # E @ CHR 0x0A # (message @ ''\<newline>\<newline>'')"
    by (simp add: commit_payload_def T_def A_def C_def E_def)
  have "split_lines (commit_payload (t1, t2) message @ ''\<newline>'') =
          T # A # C # E # split_lines (message @ ''\<newline>\<newline>'')"
    unfolding p
    by (simp only: split_lines_line [OF t] split_lines_line [OF a] split_lines_line [OF c]
        split_lines_line [OF e])
  then show ?thesis
    unfolding T_def A_def C_def E_def .
qed

lemma length_commit_payload_first: "length (commit_payload (t1, t2) ''first'') < 2 ^ 63"
proof -
  have "length (commit_payload (t1, t2) ''first'') \<le> 200"
    using length_show_long [of t1] length_show_long [of t2] by (simp add: commit_payload_def)
  moreover have "(200::nat) < 2 ^ 63"
    by simp
  ultimately show ?thesis
    by (rule le_less_trans)
qed

lemma update_ref_with_object:
  assumes "fs [''.tinygit'', ''refs''] = Some Dir" and "fs [''.tinygit'', ''refs'', ''heads''] = Some Dir"
    and "fs [''.tinygit'', ''refs'', ''heads'', ''master''] \<noteq> Some Dir"
  shows "update_ref (with_object fs sha bytes) x =
           with_object (fs([''.tinygit'', ''refs'', ''heads'', ''master''] \<mapsto> File (x @ ''\<newline>''))) sha bytes"
proof -
  have "locate (with_object fs sha bytes) ''.tinygit/refs/heads/master''
          = Some [''.tinygit'', ''refs'', ''heads'', ''master'']"
    by (rule locate_master) (simp_all add: with_object_def object_pos_def assms)
  moreover have "\<not> is_dir (with_object fs sha bytes) [''.tinygit'', ''refs'', ''heads'', ''master'']"
    using assms(3) by (simp add: is_dir_def with_object_def object_pos_def)
  ultimately have "update_ref (with_object fs sha bytes) x =
      (with_object fs sha bytes)([''.tinygit'', ''refs'', ''heads'', ''master''] \<mapsto> File (x @ ''\<newline>''))"
    by (simp add: update_ref_def write_file_def)
  also have "\<dots> = with_object (fs([''.tinygit'', ''refs'', ''heads'', ''master''] \<mapsto> File (x @ ''\<newline>''))) sha bytes"
    by (rule ext) (simp add: with_object_def object_pos_def)
  finally show ?thesis .
qed


text \<open>In a repository that \<^verbatim>\<open>init\<close> has made, after \<^verbatim>\<open>commit -m first\<close> the log command of
  \<^verbatim>\<open>part_000\<close> prints the commit payload, with the two times the clock returned, and a
  newline; its fifth line, the message line, is \<^verbatim>\<open>first\<close>.\<close>

lemma main_p0_commit_then_log:
  assumes "codec_ok z"
  shows "\<exists>o1. main_p0 z (t1, t2) [''tinygit'', ''commit'', ''-m'', ''first''] fresh_repository = Some (Inr o1) \<and>
           main_p0 z clock [''tinygit'', ''log''] (files o1) =
             Some (Inr \<lparr>exit_code = 0, out = commit_payload (t1, t2) ''first'' @ ''\<newline>'', err = [],
                        files = files o1\<rparr>) \<and>
           split_lines (commit_payload (t1, t2) ''first'' @ ''\<newline>'') ! 4 = ''first''"
proof -
  let ?p = "commit_payload (t1, t2) ''first''"
  let ?store = "store_encoding_p0 ?p ''commit''"
  let ?sha = "sha1_p0 ?store"
  let ?mpos = "[''.tinygit'', ''refs'', ''heads'', ''master'']"
  let ?fs1 = "with_object fresh_repository ?sha (deflate_all z ?store)"
  let ?fs2 = "with_object (fresh_repository(?mpos \<mapsto> File (?sha @ ''\<newline>''))) ?sha (deflate_all z ?store)"
  let ?o1 = "\<lparr>exit_code = 0, out = ''[master '' @ take 7 ?sha @ ''] '' @ ''first'' @ ''\<newline>'',
               err = [], files = ?fs2\<rparr>"
  have ready: "store_ready fresh_repository ?sha"
    by (simp add: store_ready_def is_file_def fresh_repository_def object_pos_def)
  have w: "write_object_p0 z fresh_repository ?p ''commit'' = Inr (?sha, ?fs1)"
    using assms ready by (rule write_object_p0_ok)
  have u: "update_ref ?fs1 ?sha = ?fs2"
    by (rule update_ref_with_object) (simp_all add: fresh_repository_def)
  have c: "main_p0 z (t1, t2) [''tinygit'', ''commit'', ''-m'', ''first''] fresh_repository = Some (Inr ?o1)"
    by (simp add: main_p0_def Let_def w u substr_n_def)
  have ne: "?sha \<noteq> []"
    using length_sha1_p0 [of ?store] by auto
  have ns: "list_all (\<lambda>c. \<not> isspace c) ?sha"
    using is_hex_sha1_p0 [of ?store] by (simp add: list_all_iff is_hex_not_space)
  have "locate ?fs2 ''.tinygit/refs/heads/master'' = Some ?mpos"
    by (rule locate_master) (simp_all add: with_object_def object_pos_def fresh_repository_def)
  then have "file_status ?fs2 ''.tinygit/refs/heads/master'' = Regular (?sha @ ''\<newline>'')"
    by (simp add: file_status_def is_dir_def with_object_def object_pos_def)
  then have r: "resolve_ref ?fs2 = ?sha"
    by (simp add: resolve_ref_def extract_word_line [OF ne ns])
  have "read_object_p0 z ?fs2 ?sha = Some (Inr ?p)"
    by (rule read_object_p0_written [OF assms _ _ length_commit_payload_first]) simp_all
  then have l: "main_p0 z clock [''tinygit'', ''log''] ?fs2 =
             Some (Inr \<lparr>exit_code = 0, out = ?p @ ''\<newline>'', err = [], files = ?fs2\<rparr>)"
    by (simp add: main_p0_def Let_def r)
  have "split_lines (?p @ ''\<newline>'') ! 4 = ''first''"
    by (simp add: commit_payload_lines)
  with c l show ?thesis
    by (intro exI [of _ ?o1]) simp
qed

text \<open>Without \<^verbatim>\<open>init\<close> the commit command stores the object, since \<^verbatim>\<open>write_object\<close>
  makes its directories, but the reference is lost, and the log command ends with the
  uncaught \<^verbatim>\<open>std::out_of_range\<close>.\<close>

lemma main_p0_commit_without_init:
  assumes "codec_ok z"
  shows "\<exists>o1. main_p0 z (t1, t2) [''tinygit'', ''commit'', ''-m'', ''first''] Map.empty = Some (Inr o1) \<and>
           exit_code o1 = 0 \<and>
           file_status (files o1) ''.tinygit/refs/heads/master'' = Absent \<and>
           main_p0 z clock [''tinygit'', ''log''] (files o1) = Some (Inl OutOfRange)"
proof -
  let ?p = "commit_payload (t1, t2) ''first''"
  let ?store = "store_encoding_p0 ?p ''commit''"
  let ?sha = "sha1_p0 ?store"
  let ?fs1 = "with_object Map.empty ?sha (deflate_all z ?store)"
  let ?o1 = "\<lparr>exit_code = 0, out = ''[master '' @ take 7 ?sha @ ''] '' @ ''first'' @ ''\<newline>'',
               err = [], files = ?fs1\<rparr>"
  have w: "write_object_p0 z Map.empty ?p ''commit'' = Inr (?sha, ?fs1)"
    using assms store_ready_empty by (rule write_object_p0_ok)
  have l: "locate ?fs1 ''.tinygit/refs/heads/master'' = None"
    by (simp add: locate_def is_dir_def with_object_def object_pos_def)
  then have u: "update_ref ?fs1 ?sha = ?fs1"
    by (simp add: update_ref_def write_file_def)
  have c: "main_p0 z (t1, t2) [''tinygit'', ''commit'', ''-m'', ''first''] Map.empty = Some (Inr ?o1)"
    by (simp add: main_p0_def Let_def w u substr_n_def)
  from l have a: "file_status ?fs1 ''.tinygit/refs/heads/master'' = Absent"
    by (simp add: file_status_def)
  then have "resolve_ref ?fs1 = []"
    by (simp add: resolve_ref_def)
  then have "main_p0 z clock [''tinygit'', ''log''] ?fs1 = Some (Inl OutOfRange)"
    by (simp add: main_p0_def Let_def read_object_p0_def read_path_short)
  with c a show ?thesis
    by (intro exI [of _ ?o1]) simp
qed

section \<open>The padding of SHA-1\<close>

lemma bits_mod_512: "(n * 8) mod 512 = 448 \<longleftrightarrow> n mod 64 = (56::nat)"
proof -
  have "8 * (n mod 64) = (8 * n) mod (8 * 64)"
    by (rule mult_mod_right)
  then have "(n * 8) mod 512 = 8 * (n mod 64)"
    by (simp add: mult.commute)
  then show ?thesis
    by auto
qed

lemma pad_distance_step: "n mod 64 \<noteq> 56 \<Longrightarrow> pad_distance n = Suc (pad_distance (Suc n))"
proof -
  assume b: "n mod 64 \<noteq> 56"
  have d: "Suc n mod 64 = (if n mod 64 = 63 then 0 else Suc (n mod 64))"
    by (simp add: mod_Suc)
  have "n mod 64 < 64"
    by simp
  with b show ?thesis
    unfolding pad_distance_def d by (auto split: if_splits)
qed

lemma pad_distance_done: "n mod 64 = 56 \<Longrightarrow> pad_distance n = 0"
  by (simp add: pad_distance_def)

lemma append_zeros_eq: "append_zeros padded = padded @ replicate (pad_distance (length padded)) 0"
proof (induction padded rule: append_zeros.induct)
  case (1 padded)
  show ?case
  proof (cases "length padded mod 64 = 56")
    case True
    then show ?thesis
      by (simp add: append_zeros.simps [of padded] bits_mod_512 pad_distance_done)
  next
    case False
    then have "append_zeros padded = append_zeros (padded @ [0])"
      by (simp add: append_zeros.simps [of padded] bits_mod_512)
    also have "\<dots> = (padded @ [0]) @ replicate (pad_distance (length (padded @ [0]))) 0"
      using False by (intro "1.IH") (simp add: bits_mod_512)
    also have "\<dots> = padded @ replicate (pad_distance (length padded)) 0"
      using pad_distance_step [OF False] by (simp add: replicate_append_same)
    finally show ?thesis .
  qed
qed

lemma zero_bytes_mod: "r < 64 \<Longrightarrow> (119 - r) mod 64 = (if r \<le> 55 then 55 - r else 119 - (r::nat))"
proof (cases "r \<le> 55")
  case True
  then have e: "119 - r = 64 + (55 - r)"
    by arith
  have "(64 + (55 - r)) mod 64 = (55 - r) mod 64"
    by (rule mod_add_self1)
  also have "\<dots> = 55 - r"
    by (rule mod_less) arith
  finally have "(119 - r) mod 64 = 55 - r"
    unfolding e .
  with True show ?thesis
    by simp
next
  case False
  assume "r < 64"
  with False have "119 - r < 64"
    by arith
  then show ?thesis
    using False by simp
qed

lemma pad_distance_Suc: "pad_distance (Suc n) = (119 - n mod 64) mod 64"
proof -
  have d: "Suc n mod 64 = (if n mod 64 = 63 then 0 else Suc (n mod 64))"
    by (simp add: mod_Suc)
  have r: "n mod 64 < 64"
    by simp
  show ?thesis
    unfolding pad_distance_def d zero_bytes_mod [OF r] by (auto split: if_splits)
qed

lemma ucast_low_byte: "(ucast (x AND 0xFF :: u64) :: u8) = ucast x"
proof -
  have m: "(mask 8 :: u64) = 0xFF"
    by (simp add: mask_eq_exp_minus_1)
  have "(ucast (x AND mask 8 :: u64) :: u8) = ucast x"
    by (rule bit_word_eqI) (simp add: bit_simps)
  then show ?thesis
    unfolding m .
qed

lemma upt_0_4: "[0..<4] = [0, 1, 2, 3]"
  by code_simp

lemma upt_0_8: "[0..<8] = [0, 1, 2, 3, 4, 5, 6, 7]"
  by code_simp

lemma append_length_eq: "append_length bit_len padded = padded @ be64 bit_len"
  by (simp add: append_length_def be64_def ucast_low_byte upt_0_8)

lemma sha1_padding_eq: "sha1_padding data = fips_pad (map of_char data)"
  by (simp add: sha1_padding_def fips_pad_def Let_def append_zeros_eq append_length_eq
      pad_distance_Suc mult.commute)

lemma length_be64: "length (be64 l) = 8"
  by (simp add: be64_def)

lemma length_fips_pad: "length (fips_pad M) mod 64 = 0"
proof -
  let ?r = "length M mod 64"
  have n: "length M = 64 * (length M div 64) + ?r"
    by simp
  have r: "?r < 64"
    by simp
  have "length (fips_pad M) = length M + 9 + (119 - ?r) mod 64"
    by (simp add: fips_pad_def length_be64)
  also have "\<dots> = 64 * (length M div 64) + (?r + 9 + (119 - ?r) mod 64)"
    using n by linarith
  also have "?r + 9 + (119 - ?r) mod 64 = (if ?r \<le> 55 then 64 else 128)"
    unfolding zero_bytes_mod [OF r] using r by (auto split: if_splits)
  finally show ?thesis
    by (simp split: if_splits)
qed

section \<open>Bitwise facts\<close>

lemma rotl_as_shifts:
  assumes "0 < k" "k < 32"
  shows "push_bit k x OR drop_bit (32 - k) x = ROTL k (x :: u32)"
proof (rule bit_word_eqI)
  fix n
  assume n: "n < LENGTH(32)"
  show "bit (push_bit k x OR drop_bit (32 - k) x) n = bit (ROTL k x) n"
  proof (cases "n < k")
    case True
    then have "(n + (32 - k mod 32)) mod 32 = n + (32 - k)"
      using assms by simp
    moreover have "n + (32 - k) = 32 - k + n"
      by simp
    ultimately show ?thesis
      using True n assms by (simp add: ROTL_def bit_simps)
  next
    case False
    then have "(n + (32 - k mod 32)) mod 32 = n - k"
      using assms n by (simp add: mod_if)
    moreover have "\<not> bit x (32 - k + n)"
      using False assms by (auto dest: bit_imp_le_length)
    ultimately show ?thesis
      using False n assms by (simp add: ROTL_def bit_simps)
  qed
qed

lemma Ch_as_or: "(b AND c) OR ((NOT b) AND d) = Ch b c (d :: u32)"
  unfolding Ch_def by (rule bit_word_eqI) (auto simp: bit_simps)

lemma Maj_as_or: "(b AND c) OR (b AND d) OR (c AND d) = Maj b c (d :: u32)"
  unfolding Maj_def by (rule bit_word_eqI) (auto simp: bit_simps)

lemma word_rcat_bytes:
  "(word_rcat [a, b, c, d :: u8] :: u32) =
     push_bit 24 (ucast a) OR push_bit 16 (ucast b) OR push_bit 8 (ucast c) OR ucast d"
proof (rule bit_word_eqI)
  fix n
  assume n: "n < LENGTH(32)"
  have bit_word_rcat_iff: "bit (word_rcat ws :: u32) m \<longleftrightarrow>
      m < 32 \<and> m div 8 < length ws \<and> bit (rev ws ! (m div 8)) (m mod 8)" for ws :: "u8 list" and m
    using bit_horner_sum_uint_exp_iff [of "rev ws" m]
    by (simp add: word_rcat_def bit_word_of_int_iff)
  consider "n < 8" | "8 \<le> n" "n < 16" | "16 \<le> n" "n < 24" | "24 \<le> n" "n < 32"
    using n by fastforce
  then show "bit (word_rcat [a, b, c, d] :: u32) n =
     bit (push_bit 24 (ucast a) OR push_bit 16 (ucast b) OR push_bit 8 (ucast c) OR (ucast d :: u32)) n"
  proof cases
    case 1
    then have "n div 8 = 0" "n mod 8 = n"
      by simp_all
    then show ?thesis
      using 1 by (simp add: bit_word_rcat_iff bit_simps)
  next
    case 2
    then have "n div 8 = 1" "n mod 8 = n - 8"
      by (simp_all add: div_nat_eqI mod_if)
    then show ?thesis
      using 2 by (auto simp: bit_word_rcat_iff bit_simps dest: bit_imp_le_length)
  next
    case 3
    then have "n div 8 = 2" "n mod 8 = n - 16"
      by (simp_all add: div_nat_eqI mod_if)
    then show ?thesis
      using 3 by (auto simp: bit_word_rcat_iff bit_simps dest: bit_imp_le_length)
  next
    case 4
    then have "n div 8 = 3" "n mod 8 = n - 24"
      by (simp_all add: div_nat_eqI mod_if)
    then show ?thesis
      using 4 by (auto simp: bit_word_rcat_iff bit_simps dest: bit_imp_le_length)
  qed
qed

section \<open>One block of SHA-1\<close>

lemma fold_update_table:
  "n \<le> length w \<Longrightarrow>
   length (fold (\<lambda>i w. w[i := g i]) [0..<n] w) = length w \<and>
   (\<forall>t < length w. fold (\<lambda>i w. w[i := g i]) [0..<n] w ! t = (if t < n then g t else w ! t))"
proof (induction n)
  case 0
  then show ?case by simp
next
  case (Suc n)
  then show ?case
    by (auto simp: nth_list_update)
qed

lemma load_word:
  fixes w :: "u32 list" and padded :: "u8 list"
  shows "i < length w \<Longrightarrow>
   fold (\<lambda>j w. w[i := (w ! i) OR push_bit (24 - j * 8) (ucast (padded ! (offset + i * 4 + j)))])
     [0..<4] (w[i := 0]) =
   w[i := word_rcat [padded ! (offset + i * 4), padded ! (offset + i * 4 + 1),
                     padded ! (offset + i * 4 + 2), padded ! (offset + i * 4 + 3)]]"
  by (simp add: upt_0_4 word_rcat_bytes or.assoc)

lemma load_block_as_table:
  fixes w :: "u32 list" and padded :: "u8 list"
  shows "n \<le> length w \<Longrightarrow>
   fold (\<lambda>i w.
        fold (\<lambda>j w. w[i := (w ! i) OR push_bit (24 - j * 8) (ucast (padded ! (offset + i * 4 + j)))])
          [0..<4] (w[i := 0]))
     [0..<n] w =
   fold (\<lambda>i w. w[i := word_rcat [padded ! (offset + i * 4), padded ! (offset + i * 4 + 1),
                     padded ! (offset + i * 4 + 2), padded ! (offset + i * 4 + 3)]]) [0..<n] w"
proof (induction n)
  case 0
  then show ?case by simp
next
  case (Suc n)
  let ?g = "\<lambda>i. word_rcat [padded ! (offset + i * 4), padded ! (offset + i * 4 + 1),
                     padded ! (offset + i * 4 + 2), padded ! (offset + i * 4 + 3)] :: u32"
  from Suc.prems have "n \<le> length w"
    by simp
  then have len: "length (fold (\<lambda>i w. w[i := ?g i]) [0..<n] w) = length w"
    using fold_update_table [of n w ?g] by simp
  show ?case
    using Suc.prems Suc.IH [OF \<open>n \<le> length w\<close>] len by (simp add: load_word)
qed

lemma take_4_drop:
  "k + 4 \<le> length xs \<Longrightarrow> take 4 (drop k xs) = [xs ! k, xs ! (k + 1), xs ! (k + 2), xs ! (k + 3)]"
  by (auto simp: list_eq_iff_nth_eq nth_Cons' numeral_eq_Suc less_Suc_eq)

lemma load_block_nth:
  assumes "offset + 64 \<le> length padded" "t < 16"
  shows "load_block padded offset (replicate 80 0) ! t = block_words (take 64 (drop offset padded)) ! t"
    and "length (load_block padded offset (replicate 80 0)) = 80"
proof -
  let ?g = "\<lambda>i. word_rcat [padded ! (offset + i * 4), padded ! (offset + i * 4 + 1),
                     padded ! (offset + i * 4 + 2), padded ! (offset + i * 4 + 3)] :: u32"
  have l: "load_block padded offset (replicate 80 0) = fold (\<lambda>i w. w[i := ?g i]) [0..<16] (replicate 80 0)"
    unfolding load_block_def by (rule load_block_as_table) simp
  have tab: "length (fold (\<lambda>i w. w[i := ?g i]) [0..<16] (replicate 80 (0 :: u32))) = length (replicate 80 (0 :: u32)) \<and>
      (\<forall>t < length (replicate 80 (0 :: u32)).
         fold (\<lambda>i w. w[i := ?g i]) [0..<16] (replicate 80 0) ! t = (if t < 16 then ?g t else replicate 80 0 ! t))"
    by (rule fold_update_table) simp
  from tab show "length (load_block padded offset (replicate 80 0)) = 80"
    unfolding l by simp
  from tab assms(2) have "load_block padded offset (replicate 80 0) ! t = ?g t"
    unfolding l by simp
  moreover have "take 4 (drop (4 * t) (take 64 (drop offset padded))) =
      [padded ! (offset + t * 4), padded ! (offset + t * 4 + 1),
       padded ! (offset + t * 4 + 2), padded ! (offset + t * 4 + 3)]"
    using assms by (subst take_4_drop) (simp_all add: add.commute add.left_commute mult.commute)
  ultimately show "load_block padded offset (replicate 80 0) ! t = block_words (take 64 (drop offset padded)) ! t"
    using assms(2) by (simp add: block_words_def)
qed


end
